theory Spec2Isabelle
  imports Main "HOL-Library.Sublist"
begin

text \<open>
  The fetch, merge and cache core of the viral calendar: the aggregator of the news
  sources, the importer of historical Reddit posts with its local cache, the mock data,
  the read paths of the two data hooks and two reads of the remote store. Answers of
  the network, the clock and the local storage are parameters of the functions; a call
  that throws is the value \<open>None\<close>.
\<close>

section \<open>Data model (types.ts)\<close>

text \<open>
  \<^verbatim>\<open>ContentType = 'tweet' | 'news' | 'meme' | 'video' | 'trend'\<close>, the interfaces
  \<^verbatim>\<open>ViralEvent\<close> and \<^verbatim>\<open>DayData\<close>. Optional fields (\<^verbatim>\<open>hashtag?\<close>,
  \<^verbatim>\<open>topHashtag?\<close>) are options, \<open>None\<close> standing for \<^verbatim>\<open>undefined\<close>. Scores and
  ranks are integers. The field \<^verbatim>\<open>id\<close> is named \<open>id_ev\<close> and \<^verbatim>\<open>type\<close> is named
  \<open>type_ev\<close>, the plain names being taken in HOL.
\<close>

datatype ContentType = Tweet | News | Meme | Video | Trend

record ViralEvent =
  id_ev :: string
  title :: string
  summary :: string
  postCount :: int
  hashtag :: "string option"
  type_ev :: ContentType
  trendingRank :: int

record DayData =
  date :: string
  events :: "ViralEvent list"
  hasViralContent :: bool
  topHashtag :: "string option"

section \<open>String helpers of the host language\<close>

text \<open>
  Titles and hashtags are 8-bit character strings. \<open>toLowerCase\<close> maps the letters
  \<open>A\<close> to \<open>Z\<close> to lower case and leaves every other character alone, which is what
  \<^verbatim>\<open>String.prototype.toLowerCase\<close> does on ASCII text.
\<close>

definition lower_char :: "char \<Rightarrow> char" where
  "lower_char c =
     (case map_of (zip ''ABCDEFGHIJKLMNOPQRSTUVWXYZ'' ''abcdefghijklmnopqrstuvwxyz'') c of
        None \<Rightarrow> c
      | Some l \<Rightarrow> l)"

definition toLowerCase :: "string \<Rightarrow> string" where
  "toLowerCase s = map lower_char s"

text \<open>The characters the pattern \<^verbatim>\<open>/[^a-z0-9]/g\<close> does not remove.\<close>

definition is_lower_alnum :: "char \<Rightarrow> bool" where
  "is_lower_alnum c \<longleftrightarrow> c \<in> set ''abcdefghijklmnopqrstuvwxyz0123456789''"

text \<open>\<^verbatim>\<open>s.includes(sub)\<close>: \<open>sub\<close> occurs in \<open>s\<close> as a contiguous substring.\<close>

fun includes_str :: "string \<Rightarrow> string \<Rightarrow> bool" where
  "includes_str [] sub = (sub = [])"
| "includes_str (c # cs) sub = (prefix sub (c # cs) \<or> includes_str cs sub)"

text \<open>
  \<^verbatim>\<open>e.hashtag?.includes(sub)\<close> used as a condition: an absent hashtag gives
  \<^verbatim>\<open>undefined\<close>, which is falsy.
\<close>

definition hashtag_includes :: "ViralEvent \<Rightarrow> string \<Rightarrow> bool" where
  "hashtag_includes e sub = (case hashtag e of None \<Rightarrow> False | Some h \<Rightarrow> includes_str h sub)"

text \<open>
  \<^verbatim>\<open>!topHashtag\<close> on an optional string: true for \<^verbatim>\<open>undefined\<close> and for the empty
  string.
\<close>

definition falsy :: "string option \<Rightarrow> bool" where
  "falsy h \<longleftrightarrow> h = None \<or> h = Some []"

section \<open>NewsAggregator.removeDuplicates\<close>

text \<open>
  \<^verbatim>\<open>event.title.toLowerCase().replace(/[^a-z0-9]/g, '').substring(0, 30)\<close>
\<close>

definition dedupKey :: "ViralEvent \<Rightarrow> string" where
  "dedupKey event = take 30 (filter is_lower_alnum (toLowerCase (title event)))"

text \<open>
  The \<^verbatim>\<open>for (const event of events)\<close> loop with its two variables, the set \<open>seen\<close>
  and the list \<open>unique\<close>, to which \<^verbatim>\<open>push\<close> appends.
\<close>

fun removeDuplicates_loop ::
  "string set \<Rightarrow> ViralEvent list \<Rightarrow> ViralEvent list \<Rightarrow> ViralEvent list" where
  "removeDuplicates_loop seen unique [] = unique"
| "removeDuplicates_loop seen unique (event # rest) =
     (let key = dedupKey event in
      if key \<notin> seen
      then removeDuplicates_loop (insert key seen) (unique @ [event]) rest
      else removeDuplicates_loop seen unique rest)"

definition removeDuplicates :: "ViralEvent list \<Rightarrow> ViralEvent list" where
  "removeDuplicates evs = removeDuplicates_loop {} [] evs"

section \<open>NewsAggregator.fetchViralContent\<close>

datatype NewsSource = Reddit | Newsapi | Hackernews | AllSources

text \<open>
  \<^verbatim>\<open>AggregatorOptions\<close>: every field is optional, the defaults are those of the
  destructuring at the head of \<^verbatim>\<open>fetchViralContent\<close>.
\<close>

record AggregatorOptions =
  sources :: "NewsSource list option"
  newsOnly :: "bool option"
  minScore :: "int option"
  maxResults :: "int option"

text \<open>
  What the source clients answer during one call. \<open>None\<close> is a call that throws; the
  aggregator catches it and adds nothing for that call.
\<close>

record SourceReplies =
  redditPopular :: "ViralEvent list option"
  redditSubreddit :: "string \<Rightarrow> ViralEvent list option"
  newsApiConfigured :: bool
  newsTopHeadlines :: "ViralEvent list option"
  hnTopStories :: "ViralEvent list option"

definition pushed :: "'a list option \<Rightarrow> 'a list" where
  "pushed reply = (case reply of None \<Rightarrow> [] | Some xs \<Rightarrow> xs)"

text \<open>
  The three fetch blocks, in the order of the source. When the first Reddit call throws,
  the outer \<^verbatim>\<open>catch\<close> skips the three subreddit calls as well.
\<close>

definition collectEvents :: "NewsSource list \<Rightarrow> SourceReplies \<Rightarrow> ViralEvent list" where
  "collectEvents srcs w =
     (if Reddit \<in> set srcs \<or> AllSources \<in> set srcs
      then (case redditPopular w of
              None \<Rightarrow> []
            | Some redditPosts \<Rightarrow>
                redditPosts @
                concat (map (\<lambda>sub. pushed (redditSubreddit w sub))
                          [''worldnews'', ''news'', ''technology'']))
      else []) @
     (if (Newsapi \<in> set srcs \<or> AllSources \<in> set srcs) \<and> newsApiConfigured w
      then pushed (newsTopHeadlines w) else []) @
     (if Hackernews \<in> set srcs \<or> AllSources \<in> set srcs
      then pushed (hnTopStories w) else [])"

definition isNewsEvent :: "ViralEvent \<Rightarrow> bool" where
  "isNewsEvent e \<longleftrightarrow>
     type_ev e = News \<or> hashtag_includes e ''news'' \<or> hashtag_includes e ''worldnews'' \<or>
     hashtag_includes e ''technology''"

text \<open>
  \<^verbatim>\<open>.sort((a, b) => b.postCount - a.postCount)\<close>: the sort of the host language is
  stable, so this is the stable sort on the negated score.
\<close>

definition sortByPostCount :: "ViralEvent list \<Rightarrow> ViralEvent list" where
  "sortByPostCount evs = sort_key (\<lambda>e. - postCount e) evs"

text \<open>
  \<^verbatim>\<open>.slice(0, n)\<close>: a negative \<open>n\<close> counts from the end of the list.
\<close>

definition slice0 :: "int \<Rightarrow> 'a list \<Rightarrow> 'a list" where
  "slice0 n xs = (if n < 0 then take (nat (int (length xs) + n)) xs else take (nat n) xs)"

text \<open>\<^verbatim>\<open>.map((e, i) => ({ ...e, trendingRank: i + 1 }))\<close>\<close>

definition withRanks :: "ViralEvent list \<Rightarrow> ViralEvent list" where
  "withRanks evs = map (\<lambda>(i, e). e\<lparr>trendingRank := int i + 1\<rparr>) (enumerate 0 evs)"

text \<open>\<^verbatim>\<open>sortedEvents[0]?.hashtag\<close>\<close>

definition headHashtag :: "ViralEvent list \<Rightarrow> string option" where
  "headHashtag evs = (case evs of [] \<Rightarrow> None | e # _ \<Rightarrow> hashtag e)"

text \<open>
  The bucket that \<^verbatim>\<open>fetchViralContent\<close> builds from the events it has collected;
  \<open>today\<close> is the date string read from the clock.
\<close>

definition aggregateBucket ::
  "string \<Rightarrow> bool \<Rightarrow> int \<Rightarrow> int \<Rightarrow> ViralEvent list \<Rightarrow> DayData" where
  "aggregateBucket today newsOnly' minScore' maxResults' allEvents =
     (let filteredEvents = filter (\<lambda>e. postCount e \<ge> minScore') allEvents;
          filteredEvents = (if newsOnly' then filter isNewsEvent filteredEvents
                            else filteredEvents);
          uniqueEvents = removeDuplicates filteredEvents;
          sortedEvents = slice0 maxResults' (sortByPostCount uniqueEvents)
      in \<lparr>date = today,
          events = withRanks sortedEvents,
          hasViralContent = (length sortedEvents > 0),
          topHashtag = headHashtag sortedEvents\<rparr>)"

definition fetchViralContent ::
  "string \<Rightarrow> SourceReplies \<Rightarrow> AggregatorOptions \<Rightarrow> (string \<rightharpoonup> DayData)" where
  "fetchViralContent today w options =
     (let srcs = (case sources options of None \<Rightarrow> [Reddit, Hackernews] | Some s \<Rightarrow> s);
          newsOnly' = (case newsOnly options of None \<Rightarrow> True | Some b \<Rightarrow> b);
          minScore' = (case minScore options of None \<Rightarrow> 500 | Some n \<Rightarrow> n);
          maxResults' = (case maxResults options of None \<Rightarrow> 100 | Some n \<Rightarrow> n)
      in Map.empty(today \<mapsto>
           aggregateBucket today newsOnly' minScore' maxResults' (collectEvents srcs w)))"

section \<open>RedditHistoricalImporter\<close>

datatype Timeframe = Day | Week | Month | Year | AllTime

definition NEWS_SUBREDDITS :: "string list" where
  "NEWS_SUBREDDITS =
     [''worldnews'', ''news'', ''politics'', ''science'', ''technology'', ''nottheonion'',
      ''UpliftingNews'', ''TrueReddit'', ''newsbot'', ''inthenews'']"

record HistoricalImportOptions =
  timeframes :: "Timeframe list option"
  minScore_h :: "int option"
  maxPosts :: "int option"
  contentTypes :: "ContentType list option"
  subreddits :: "string list option"

text \<open>
  What Reddit answers during one import. The first argument of \<open>getSubredditPosts\<close> is
  the number of subreddit requests made before this one, so that the same subreddit and
  timeframe may be answered differently when asked again. \<open>None\<close> is a call that throws.
\<close>

record RedditReplies =
  getSubredditPosts :: "nat \<Rightarrow> string \<Rightarrow> Timeframe \<Rightarrow> ViralEvent list option"
  getPopularPosts :: "ViralEvent list option"

text \<open>
  The state of a run: the field \<^verbatim>\<open>importedData\<close> of the importer, the local variable
  \<^verbatim>\<open>totalProcessed\<close>, the requests for subreddits sent so far (the request to r/all
  at the end is not among them), and how often the clock has been read.
  The clock is a function \<open>clock\<close>: its value at \<open>n\<close> is the date string
  (\<^verbatim>\<open>new Date().toISOString().split('T')[0]\<close>) of the read number \<open>n\<close>.
  The optional progress callback only reports and is left out.
\<close>

record ImporterState =
  importedData :: "string \<rightharpoonup> DayData"
  totalProcessed :: int
  requests :: "(string \<times> Timeframe) list"
  clockReads :: nat

text \<open>
  The body of the \<^verbatim>\<open>forEach\<close> of \<^verbatim>\<open>processPosts\<close>, for one post. \<open>accumulate\<close>
  is what it does to the bucket of the date \<open>dateStr\<close>, \<open>old\<close> being the entry
  \<^verbatim>\<open>this.importedData[dateStr]\<close> before: a missing entry is created empty, a post
  whose id is in the bucket is skipped, any other post is pushed and may set
  \<^verbatim>\<open>topHashtag\<close>.
\<close>

definition accumulate :: "string \<Rightarrow> DayData option \<Rightarrow> ViralEvent \<Rightarrow> DayData" where
  "accumulate dateStr old post =
     (let bucket = (case old of
                      None \<Rightarrow> \<lparr>date = dateStr, events = [], hasViralContent = False,
                               topHashtag = None\<rparr>
                    | Some b \<Rightarrow> b);
          exists = list_ex (\<lambda>e. id_ev e = id_ev post) (events bucket)
      in if \<not> exists
         then (let bucket = bucket\<lparr>events := events bucket @ [post],
                                   hasViralContent := True\<rparr>
               in if falsy (topHashtag bucket) \<or> trendingRank post = 1
                  then bucket\<lparr>topHashtag := hashtag post\<rparr>
                  else bucket)
         else bucket)"

definition processPost :: "(nat \<Rightarrow> string) \<Rightarrow> ImporterState \<Rightarrow> ViralEvent \<Rightarrow> ImporterState" where
  "processPost clock st post =
     (let dateStr = clock (clockReads st)
      in st\<lparr>importedData :=
              (importedData st)(dateStr \<mapsto> accumulate dateStr (importedData st dateStr) post),
            clockReads := Suc (clockReads st)\<rparr>)"

definition processPosts :: "(nat \<Rightarrow> string) \<Rightarrow> ViralEvent list \<Rightarrow> ImporterState \<Rightarrow> ImporterState" where
  "processPosts clock posts st = foldl (processPost clock) st posts"

text \<open>
  The inner loop over the subreddits, for one timeframe. A request that throws is caught
  and the loop goes on; the loop stops once \<^verbatim>\<open>totalProcessed >= maxPosts\<close>.
\<close>

fun subredditLoop ::
  "(nat \<Rightarrow> string) \<Rightarrow> RedditReplies \<Rightarrow> int \<Rightarrow> int \<Rightarrow> Timeframe \<Rightarrow> string list \<Rightarrow>
   ImporterState \<Rightarrow> ImporterState" where
  "subredditLoop clock w minS maxP timeframe [] st = st"
| "subredditLoop clock w minS maxP timeframe (subreddit # rest) st =
     (let asked = st\<lparr>requests := requests st @ [(subreddit, timeframe)]\<rparr> in
      case getSubredditPosts w (length (requests st)) subreddit timeframe of
        None \<Rightarrow> subredditLoop clock w minS maxP timeframe rest asked
      | Some posts \<Rightarrow>
          (let filteredPosts = filter (\<lambda>post. postCount post \<ge> minS) posts;
               st1 = processPosts clock filteredPosts asked;
               st2 = st1\<lparr>totalProcessed := totalProcessed st1 + int (length filteredPosts)\<rparr>
           in if totalProcessed st2 \<ge> maxP then st2
              else subredditLoop clock w minS maxP timeframe rest st2))"

text \<open>The outer loop over the timeframes, with its check at the top.\<close>

fun timeframeLoop ::
  "(nat \<Rightarrow> string) \<Rightarrow> RedditReplies \<Rightarrow> int \<Rightarrow> int \<Rightarrow> string list \<Rightarrow> Timeframe list \<Rightarrow>
   ImporterState \<Rightarrow> ImporterState" where
  "timeframeLoop clock w minS maxP subs [] st = st"
| "timeframeLoop clock w minS maxP subs (timeframe # rest) st =
     (if totalProcessed st \<ge> maxP then st
      else timeframeLoop clock w minS maxP subs rest
             (subredditLoop clock w minS maxP timeframe subs st))"

definition initialState :: ImporterState where
  "initialState = \<lparr>importedData = Map.empty, totalProcessed = 0, requests = [], clockReads = 0\<rparr>"

text \<open>The state when the two nested loops are done.\<close>

definition mainLoop ::
  "(nat \<Rightarrow> string) \<Rightarrow> RedditReplies \<Rightarrow> HistoricalImportOptions \<Rightarrow> ImporterState" where
  "mainLoop clock w options =
     (let tfs = (case timeframes options of None \<Rightarrow> [Month, Year, AllTime] | Some t \<Rightarrow> t);
          minS = (case minScore_h options of None \<Rightarrow> 1000 | Some n \<Rightarrow> n);
          maxP = (case maxPosts options of None \<Rightarrow> 500 | Some n \<Rightarrow> n);
          subs = (case subreddits options of None \<Rightarrow> NEWS_SUBREDDITS | Some s \<Rightarrow> s)
      in timeframeLoop clock w minS maxP subs tfs initialState)"

text \<open>
  The posts of the request to r/all that pass its filter (none when the request throws),
  named for the statements below.
\<close>

definition allTimeFiltered :: "RedditReplies \<Rightarrow> HistoricalImportOptions \<Rightarrow> ViralEvent list" where
  "allTimeFiltered w options =
     (let minS = (case minScore_h options of None \<Rightarrow> 1000 | Some n \<Rightarrow> n)
      in case getPopularPosts w of
           None \<Rightarrow> []
         | Some allTimeTop \<Rightarrow> filter (\<lambda>post. postCount post \<ge> minS * 2) allTimeTop)"

definition importRun ::
  "(nat \<Rightarrow> string) \<Rightarrow> RedditReplies \<Rightarrow> HistoricalImportOptions \<Rightarrow> ImporterState" where
  "importRun clock w options =
     (let minS = (case minScore_h options of None \<Rightarrow> 1000 | Some n \<Rightarrow> n);
          st = mainLoop clock w options
      in case getPopularPosts w of
           None \<Rightarrow> st
         | Some allTimeTop \<Rightarrow>
             (let filtered = filter (\<lambda>post. postCount post \<ge> minS * 2) allTimeTop
              in processPosts clock filtered st))"

definition importHistoricalData ::
  "(nat \<Rightarrow> string) \<Rightarrow> RedditReplies \<Rightarrow> HistoricalImportOptions \<Rightarrow> (string \<rightharpoonup> DayData)" where
  "importHistoricalData clock w options = importedData (importRun clock w options)"

section \<open>The local cache: saveToStorage and loadFromStorage\<close>

text \<open>
  The item \<^verbatim>\<open>redditHistoricalData\<close> of the local storage: missing, a string that
  \<^verbatim>\<open>JSON.parse\<close> rejects, or the serialised map.
\<close>

datatype StoredItem = NoItem | Unparsable | StoredMap "string \<rightharpoonup> DayData"

text \<open>
  \<open>writable\<close> says whether \<^verbatim>\<open>localStorage.setItem\<close> succeeds. Both failures, of the
  parse and of the write, are caught and logged, and the item stays as it was.
\<close>

definition saveToStorage :: "bool \<Rightarrow> StoredItem \<Rightarrow> (string \<rightharpoonup> DayData) \<Rightarrow> StoredItem" where
  "saveToStorage writable existing data =
     (case existing of
        Unparsable \<Rightarrow> existing
      | _ \<Rightarrow>
          (let existingData = (case existing of StoredMap m \<Rightarrow> m | _ \<Rightarrow> Map.empty);
               merged = existingData ++ data
           in if writable then StoredMap merged else existing))"

definition loadFromStorage :: "StoredItem \<Rightarrow> (string \<rightharpoonup> DayData)" where
  "loadFromStorage stored = (case stored of StoredMap m \<Rightarrow> m | _ \<Rightarrow> Map.empty)"

section \<open>Mock data: createDayData and getDayData\<close>

definition createDayData :: "string \<Rightarrow> ViralEvent list \<Rightarrow> DayData" where
  "createDayData dateStr evs =
     (let sortedEvents = sort_key trendingRank evs
      in \<lparr>date = dateStr,
          events = sortedEvents,
          hasViralContent = (length evs > 0),
          topHashtag = headHashtag sortedEvents\<rparr>)"

text \<open>\<^verbatim>\<open>getDayData\<close> of the mock data, imported by the hooks as \<^verbatim>\<open>getMockDayData\<close>.\<close>

definition getMockDayData :: "(string \<rightharpoonup> DayData) \<Rightarrow> string \<Rightarrow> DayData option" where
  "getMockDayData viralData dateStr = viralData dateStr"

section \<open>The read paths of the hooks\<close>

text \<open>\<^verbatim>\<open>getDayData\<close> of \<^verbatim>\<open>useRedditData\<close>: live data, then historical data, then mock data.\<close>

definition getDayData ::
  "(string \<rightharpoonup> DayData) \<Rightarrow> (string \<rightharpoonup> DayData) \<Rightarrow> (string \<rightharpoonup> DayData) \<Rightarrow> string \<Rightarrow>
   DayData option" where
  "getDayData liveData historicalData viralData dateStr =
     (case liveData dateStr of
        Some d \<Rightarrow> Some d
      | None \<Rightarrow>
          (case historicalData dateStr of
             Some d \<Rightarrow> Some d
           | None \<Rightarrow> getMockDayData viralData dateStr))"

text \<open>
  \<^verbatim>\<open>getDayDataSync\<close> of \<^verbatim>\<open>useSupabaseData\<close>:
  \<^verbatim>\<open>historicalData[dateStr] || localData[dateStr] || getMockDayData(dateStr)\<close>.
  A bucket is an object and so is truthy.
\<close>

definition getDayDataSync ::
  "(string \<rightharpoonup> DayData) \<Rightarrow> (string \<rightharpoonup> DayData) \<Rightarrow> (string \<rightharpoonup> DayData) \<Rightarrow> string \<Rightarrow>
   DayData option" where
  "getDayDataSync historicalData localData viralData dateStr =
     (case historicalData dateStr of
        Some d \<Rightarrow> Some d
      | None \<Rightarrow>
          (case localData dateStr of
             Some d \<Rightarrow> Some d
           | None \<Rightarrow> getMockDayData viralData dateStr))"

section \<open>The remote store: getByDateRange and getAll\<close>

text \<open>
  A row of \<^verbatim>\<open>viral_events\<close>: the columns of the event and its \<^verbatim>\<open>published_date\<close>.
  The answer of a query is an error or the rows, where \<^verbatim>\<open>data\<close> may be null.
\<close>

record EventRow =
  published_date :: string
  row_event :: ViralEvent

datatype 'a QueryReply = QueryError | QueryData "'a list option"

text \<open>
  The \<^verbatim>\<open>data?.forEach((event, index) => ...)\<close> of \<^verbatim>\<open>getByDateRange\<close>; \<open>index\<close> is
  the position of the row in the whole answer.
\<close>

fun groupByDate :: "nat \<Rightarrow> EventRow list \<Rightarrow> (string \<rightharpoonup> DayData) \<Rightarrow> (string \<rightharpoonup> DayData)" where
  "groupByDate index [] grouped = grouped"
| "groupByDate index (event # rest) grouped =
     (let d = published_date event;
          bucket = (case grouped d of
                      None \<Rightarrow> \<lparr>date = d, events = [], hasViralContent = False,
                               topHashtag = None\<rparr>
                    | Some b \<Rightarrow> b);
          bucket = bucket\<lparr>events := events bucket @
                                    [(row_event event)\<lparr>trendingRank := int index + 1\<rparr>],
                          hasViralContent := True\<rparr>
      in groupByDate (Suc index) rest (grouped(d \<mapsto> bucket)))"

text \<open>\<open>None\<close> is the error of the query, thrown to the caller.\<close>

definition getByDateRange :: "EventRow QueryReply \<Rightarrow> (string \<rightharpoonup> DayData) option" where
  "getByDateRange reply =
     (case reply of
        QueryError \<Rightarrow> None
      | QueryData None \<Rightarrow> Some Map.empty
      | QueryData (Some rows) \<Rightarrow> Some (groupByDate 0 rows Map.empty))"

text \<open>A row of \<^verbatim>\<open>daily_viral_summaries\<close>, as far as \<^verbatim>\<open>getAll\<close> reads it.\<close>

record SummaryRow =
  summary_date :: string
  top_hashtag :: "string option"

definition getAll :: "SummaryRow QueryReply \<Rightarrow> (string \<rightharpoonup> DayData) option" where
  "getAll reply =
     (case reply of
        QueryError \<Rightarrow> None
      | QueryData d \<Rightarrow>
          Some (foldl (\<lambda>result summary.
                         result(summary_date summary \<mapsto>
                           \<lparr>date = summary_date summary,
                            events = [],
                            hasViralContent = True,
                            topHashtag = top_hashtag summary\<rparr>))
                  Map.empty (pushed d)))"

section \<open>Notions used in the statements\<close>

text \<open>The score threshold of an import, with its default.\<close>

definition importMinScore :: "HistoricalImportOptions \<Rightarrow> int" where
  "importMinScore options = (case minScore_h options of None \<Rightarrow> 1000 | Some n \<Rightarrow> n)"

text \<open>The events held by the buckets of a date-keyed map.\<close>

definition accumulated :: "(string \<rightharpoonup> DayData) \<Rightarrow> ViralEvent set" where
  "accumulated m = {e. \<exists>d b. m d = Some b \<and> e \<in> set (events b)}"

text \<open>
  Two readings of "the hashtag of the highest-ranked event" of a list of events: the
  hashtag of the first event in ascending order of \<open>trendingRank\<close>, and the hashtag of
  the first event whose \<open>trendingRank\<close> is 1. Both are absent for the empty list.
\<close>

definition highestRankedHashtag :: "ViralEvent list \<Rightarrow> string option" where
  "highestRankedHashtag evs = headHashtag (sort_key trendingRank evs)"

definition rankOneHashtag :: "ViralEvent list \<Rightarrow> string option" where
  "rankOneHashtag evs = headHashtag (filter (\<lambda>e. trendingRank e = 1) evs)"

text \<open>
  What the importer keeps in \<open>topHashtag\<close>: the hashtag of the event with rank 1 that
  was pushed last, or of the first event when no event has rank 1.
\<close>

definition importerTopHashtag :: "ViralEvent list \<Rightarrow> string option" where
  "importerTopHashtag evs =
     (let rankOnes = filter (\<lambda>e. trendingRank e = 1) evs
      in if rankOnes = [] then headHashtag evs else hashtag (last rankOnes))"

text \<open>
  For the invariants of an import: \<open>bucketsAll I m\<close> says that every bucket of the map
  \<open>m\<close> satisfies \<open>I\<close> together with its key; \<open>repliesAll Q w\<close> that every post of
  every answer of Reddit satisfies \<open>Q\<close>; \<open>preserved I Q clock\<close> that accumulating a
  post that satisfies \<open>Q\<close>, at a date read from the clock, keeps \<open>I\<close>.
\<close>

definition bucketsAll :: "(string \<Rightarrow> DayData \<Rightarrow> bool) \<Rightarrow> (string \<rightharpoonup> DayData) \<Rightarrow> bool" where
  "bucketsAll I m \<longleftrightarrow> (\<forall>d b. m d = Some b \<longrightarrow> I d b)"

definition repliesAll :: "(ViralEvent \<Rightarrow> bool) \<Rightarrow> RedditReplies \<Rightarrow> bool" where
  "repliesAll Q w \<longleftrightarrow>
     (\<forall>n s tf ps. getSubredditPosts w n s tf = Some ps \<longrightarrow> (\<forall>p \<in> set ps. Q p)) \<and>
     (\<forall>ps. getPopularPosts w = Some ps \<longrightarrow> (\<forall>p \<in> set ps. Q p))"

definition preserved :: "(string \<Rightarrow> DayData \<Rightarrow> bool) \<Rightarrow> (ViralEvent \<Rightarrow> bool) \<Rightarrow> (nat \<Rightarrow> string) \<Rightarrow> bool" where
  "preserved I Q clock \<longleftrightarrow>
     (\<forall>n old p. Q p \<longrightarrow> (\<forall>b. old = Some b \<longrightarrow> I (clock n) b) \<longrightarrow>
        I (clock n) (accumulate (clock n) old p))"

section \<open>Example data\<close>

text \<open>Events and buckets written in one line.\<close>

definition mkEvent ::
  "string \<Rightarrow> string \<Rightarrow> int \<Rightarrow> string option \<Rightarrow> ContentType \<Rightarrow> int \<Rightarrow> ViralEvent" where
  "mkEvent i t n h ty r =
     \<lparr>id_ev = i, title = t, summary = t, postCount = n, hashtag = h, type_ev = ty,
      trendingRank = r\<rparr>"

definition mkBucket :: "string \<Rightarrow> ViralEvent list \<Rightarrow> DayData" where
  "mkBucket d evs =
     \<lparr>date = d, events = evs, hasViralContent = (evs \<noteq> []), topHashtag = headHashtag evs\<rparr>"

text \<open>
  One summary row of the store; the two events of the aggregator scenario, the first a
  picture posted in r/pics; two rows of the store on two dates; the first event again,
  this time as news.
\<close>

definition exSummary :: SummaryRow where
  "exSummary = \<lparr>summary_date = ''2025-01-01'', top_hashtag = Some ''#r/news''\<rparr>"

definition exEventA :: ViralEvent where
  "exEventA = mkEvent ''a'' ''Breaking News Today'' 500 (Some ''#r/pics'') Meme 1"

definition exEventB :: ViralEvent where
  "exEventB = mkEvent ''b'' ''breaking news today!!'' 300 (Some ''#HackerNews'') News 1"

definition exRows :: "EventRow list" where
  "exRows = [\<lparr>published_date = ''2025-01-01'', row_event = exEventA\<rparr>,
             \<lparr>published_date = ''2025-01-02'', row_event = exEventB\<rparr>]"

definition exEventA_news :: ViralEvent where
  "exEventA_news = mkEvent ''a'' ''Breaking News Today'' 500 (Some ''#r/worldnews'') News 1"

text \<open>
  Reddit answers with the one event \<open>a\<close> and Hacker News with the one event \<open>b\<close>;
  the options give \<open>minScore\<close> 100 and nothing else.
\<close>

definition exSources :: "ViralEvent \<Rightarrow> ViralEvent \<Rightarrow> SourceReplies" where
  "exSources a b =
     \<lparr>redditPopular = Some [a], redditSubreddit = (\<lambda>sub. Some []),
      newsApiConfigured = False, newsTopHeadlines = None, hnTopStories = Some [b]\<rparr>"

definition exAggregatorOptions :: AggregatorOptions where
  "exAggregatorOptions = \<lparr>sources = None, newsOnly = None, minScore = Some 100, maxResults = None\<rparr>"

text \<open>A historical map with one date, and mock data with this date and one more.\<close>

definition exHistorical :: "string \<rightharpoonup> DayData" where
  "exHistorical = Map.empty(''2025-01-01'' \<mapsto> mkBucket ''2025-01-01'' [exEventA])"

definition exMock :: "string \<rightharpoonup> DayData" where
  "exMock = Map.empty(''2025-01-01'' \<mapsto> mkBucket ''2025-01-01'' [exEventB],
                      ''2025-01-02'' \<mapsto> mkBucket ''2025-01-02'' [exEventB])"

text \<open>
  An import on one day, with subreddits \<open>x\<close> and \<open>y\<close>, the timeframe \<open>day\<close> and
  \<open>maxPosts\<close> 1. In the first world \<open>x\<close> answers with five posts above the default
  threshold 1000 and r/all with two posts, one of them above 2000. In the second world
  \<open>x\<close> answers with two posts, of which the first has no hashtag, and the request to
  r/all throws.
\<close>

definition exClock :: "nat \<Rightarrow> string" where
  "exClock n = ''2025-01-01''"

definition exImportOptions :: HistoricalImportOptions where
  "exImportOptions =
     \<lparr>timeframes = Some [Day], minScore_h = None, maxPosts = Some 1, contentTypes = None,
      subreddits = Some [''x'', ''y'']\<rparr>"

definition exFivePosts :: "ViralEvent list" where
  "exFivePosts =
     [mkEvent ''p1'' ''Post one'' 9000 (Some ''#r/x'') News 1,
      mkEvent ''p2'' ''Post two'' 8000 (Some ''#r/x'') News 2,
      mkEvent ''p3'' ''Post three'' 7000 (Some ''#r/x'') News 3,
      mkEvent ''p4'' ''Post four'' 6000 (Some ''#r/x'') News 4,
      mkEvent ''p5'' ''Post five'' 5000 (Some ''#r/x'') News 5]"

definition exAllTime :: "ViralEvent list" where
  "exAllTime =
     [mkEvent ''q1'' ''Top of all time'' 2500 (Some ''#r/all'') Trend 1,
      mkEvent ''q2'' ''Second of all time'' 1500 (Some ''#r/pics'') Meme 2]"

definition exReddit :: RedditReplies where
  "exReddit =
     \<lparr>getSubredditPosts = (\<lambda>n s tf. if s = ''x'' then Some exFivePosts else Some []),
      getPopularPosts = Some exAllTime\<rparr>"

definition exUntagged :: "ViralEvent list" where
  "exUntagged =
     [mkEvent ''u1'' ''Untagged top post'' 5000 None News 1,
      mkEvent ''u2'' ''Tagged second post'' 4000 (Some ''#r/b'') News 2]"

definition exRedditUntagged :: RedditReplies where
  "exRedditUntagged =
     \<lparr>getSubredditPosts = (\<lambda>n s tf. if s = ''x'' then Some exUntagged else Some []),
      getPopularPosts = None\<rparr>"

section \<open>Deduplication: general facts\<close>

lemma removeDuplicates_loop_append:
  "removeDuplicates_loop seen unique (xs @ ys) =
     removeDuplicates_loop (seen \<union> dedupKey ` set xs) (removeDuplicates_loop seen unique xs) ys"
proof (induction xs arbitrary: seen unique)
  case Nil
  show ?case by simp
next
  case (Cons x xs)
  show ?case
  proof (cases "dedupKey x \<in> seen")
    case True
    then have "seen \<union> dedupKey ` set (x # xs) = seen \<union> dedupKey ` set xs" by auto
    with True Cons.IH [of seen unique] show ?thesis by (simp add: Let_def)
  next
    case False
    have "seen \<union> dedupKey ` set (x # xs) = insert (dedupKey x) seen \<union> dedupKey ` set xs"
      by auto
    with False Cons.IH [of "insert (dedupKey x) seen" "unique @ [x]"] show ?thesis
      by (simp add: Let_def)
  qed
qed

lemma removeDuplicates_loop_all_seen:
  "dedupKey ` set ys \<subseteq> seen \<Longrightarrow> removeDuplicates_loop seen unique ys = unique"
  by (induction ys arbitrary: unique) (auto simp: Let_def)

text \<open>
  C6. Deduplicating a list of events followed by itself gives the same list of unique
  events as deduplicating the list once: every event of the second copy has a key that
  the first copy has already put into \<open>seen\<close>.
\<close>

theorem removeDuplicates_twice:
  "removeDuplicates (evs @ evs) = removeDuplicates evs"
proof -
  have "removeDuplicates (evs @ evs) =
          removeDuplicates_loop ({} \<union> dedupKey ` set evs) (removeDuplicates_loop {} [] evs) evs"
    unfolding removeDuplicates_def by (rule removeDuplicates_loop_append)
  also have "\<dots> = removeDuplicates_loop {} [] evs"
    by (rule removeDuplicates_loop_all_seen) simp
  finally show ?thesis by (simp add: removeDuplicates_def)
qed

section \<open>The importer: facts about the loops\<close>

lemma processPosts_Nil: "processPosts clock [] st = st"
  by (simp add: processPosts_def)

lemma processPosts_Cons:
  "processPosts clock (p # ps) st = processPosts clock ps (processPost clock st p)"
  by (simp add: processPosts_def)

lemma importedData_processPost:
  "importedData (processPost clock st post) =
     (importedData st)(clock (clockReads st) \<mapsto>
        accumulate (clock (clockReads st)) (importedData st (clock (clockReads st))) post)"
  by (simp add: processPost_def Let_def)

lemma requests_processPost: "requests (processPost clock st post) = requests st"
  by (simp add: processPost_def Let_def)

lemma totalProcessed_processPost: "totalProcessed (processPost clock st post) = totalProcessed st"
  by (simp add: processPost_def Let_def)

lemma requests_processPosts: "requests (processPosts clock posts st) = requests st"
  by (induction posts arbitrary: st) (simp_all add: processPosts_Nil processPosts_Cons requests_processPost)

lemma totalProcessed_processPosts:
  "totalProcessed (processPosts clock posts st) = totalProcessed st"
  by (induction posts arbitrary: st)
     (simp_all add: processPosts_Nil processPosts_Cons totalProcessed_processPost)

lemma processPost_inv:
  assumes "preserved I Q clock" and "Q post" and "bucketsAll I (importedData st)"
  shows "bucketsAll I (importedData (processPost clock st post))"
  unfolding bucketsAll_def
proof (intro allI impI)
  fix d b
  assume look: "importedData (processPost clock st post) d = Some b"
  let ?now = "clock (clockReads st)"
  show "I d b"
  proof (cases "d = ?now")
    case True
    with look have b: "b = accumulate ?now (importedData st ?now) post"
      by (simp add: importedData_processPost)
    have "\<forall>b. importedData st ?now = Some b \<longrightarrow> I ?now b"
      using assms(3) by (simp add: bucketsAll_def)
    with assms(1,2) have "I ?now (accumulate ?now (importedData st ?now) post)"
      unfolding preserved_def by blast
    with True b show ?thesis by simp
  next
    case False
    with look have "importedData st d = Some b" by (simp add: importedData_processPost)
    with assms(3) show ?thesis by (simp add: bucketsAll_def)
  qed
qed

lemma processPosts_inv:
  assumes "preserved I Q clock" and "\<forall>p \<in> set posts. Q p" and "bucketsAll I (importedData st)"
  shows "bucketsAll I (importedData (processPosts clock posts st))"
  using assms(2,3)
proof (induction posts arbitrary: st)
  case Nil
  then show ?case by (simp add: processPosts_Nil)
next
  case (Cons p ps)
  from Cons.prems have "bucketsAll I (importedData (processPost clock st p))"
    using processPost_inv [OF assms(1)] by simp
  with Cons.prems(1) Cons.IH show ?case by (simp add: processPosts_Cons)
qed

lemma subredditLoop_inv:
  assumes "preserved I Q clock" and "repliesAll Q w" and "bucketsAll I (importedData st)"
  shows "bucketsAll I (importedData (subredditLoop clock w minS maxP tf subs st))"
  using assms(3)
proof (induction subs arbitrary: st)
  case Nil
  then show ?case by simp
next
  case (Cons s subs)
  let ?asked = "st\<lparr>requests := requests st @ [(s, tf)]\<rparr>"
  have asked: "bucketsAll I (importedData ?asked)" using Cons.prems by simp
  show ?case
  proof (cases "getSubredditPosts w (length (requests st)) s tf")
    case None
    with Cons.IH [OF asked] show ?thesis by (simp add: Let_def)
  next
    case (Some posts)
    let ?fp = "filter (\<lambda>post. postCount post \<ge> minS) posts"
    let ?st1 = "processPosts clock ?fp ?asked"
    let ?st2 = "?st1\<lparr>totalProcessed := totalProcessed ?st1 + int (length ?fp)\<rparr>"
    have "\<forall>p \<in> set ?fp. Q p" using assms(2) Some unfolding repliesAll_def by auto
    then have "bucketsAll I (importedData ?st1)"
      using processPosts_inv [OF assms(1) _ asked] by blast
    then have inv2: "bucketsAll I (importedData ?st2)" by simp
    show ?thesis
    proof (cases "totalProcessed ?st2 \<ge> maxP")
      case True
      with Some inv2 show ?thesis by (simp add: Let_def)
    next
      case False
      with Some Cons.IH [OF inv2] show ?thesis by (simp add: Let_def)
    qed
  qed
qed

lemma timeframeLoop_inv:
  assumes "preserved I Q clock" and "repliesAll Q w" and "bucketsAll I (importedData st)"
  shows "bucketsAll I (importedData (timeframeLoop clock w minS maxP subs tfs st))"
  using assms(3)
proof (induction tfs arbitrary: st)
  case Nil
  then show ?case by simp
next
  case (Cons tf tfs)
  show ?case
  proof (cases "totalProcessed st \<ge> maxP")
    case True
    with Cons.prems show ?thesis by simp
  next
    case False
    have "bucketsAll I (importedData (subredditLoop clock w minS maxP tf subs st))"
      using subredditLoop_inv [OF assms(1,2) Cons.prems] .
    from Cons.IH [OF this] False show ?thesis by simp
  qed
qed

lemma mainLoop_inv:
  assumes "preserved I Q clock" and "repliesAll Q w"
  shows "bucketsAll I (importedData (mainLoop clock w options))"
proof -
  have "bucketsAll I (importedData initialState)"
    by (simp add: bucketsAll_def initialState_def)
  from timeframeLoop_inv [OF assms this] show ?thesis
    unfolding mainLoop_def Let_def .
qed

lemma importRun_eq:
  "importRun clock w options =
     processPosts clock (allTimeFiltered w options) (mainLoop clock w options)"
  by (simp add: importRun_def allTimeFiltered_def processPosts_Nil Let_def split: option.splits)

lemma allTimeFiltered_subset:
  "getPopularPosts w = Some ps \<Longrightarrow> set (allTimeFiltered w options) \<subseteq> set ps"
  by (auto simp: allTimeFiltered_def Let_def)

lemma importRun_inv:
  assumes "preserved I Q clock" and "repliesAll Q w"
  shows "bucketsAll I (importHistoricalData clock w options)"
proof -
  have "\<forall>p \<in> set (allTimeFiltered w options). Q p"
  proof (cases "getPopularPosts w")
    case None
    then show ?thesis by (simp add: allTimeFiltered_def)
  next
    case (Some ps)
    with assms(2) have "\<forall>p \<in> set ps. Q p" by (simp add: repliesAll_def)
    with allTimeFiltered_subset [OF Some, of options] show ?thesis by blast
  qed
  from processPosts_inv [OF assms(1) this mainLoop_inv [OF assms]]
  show ?thesis by (simp add: importHistoricalData_def importRun_eq)
qed

section \<open>The importer: what accumulating a post does to a bucket\<close>

lemma list_ex_id: "list_ex (\<lambda>e. id_ev e = i) evs \<longleftrightarrow> i \<in> id_ev ` set evs"
  by (auto simp: list_ex_iff)

lemma accumulate_new:
  "accumulate d None p =
     \<lparr>date = d, events = [p], hasViralContent = True, topHashtag = hashtag p\<rparr>"
  by (simp add: accumulate_def Let_def falsy_def)

lemma accumulate_skip:
  "id_ev p \<in> id_ev ` set (events b) \<Longrightarrow> accumulate d (Some b) p = b"
  by (simp add: accumulate_def Let_def list_ex_id)

lemma accumulate_push:
  "id_ev p \<notin> id_ev ` set (events b) \<Longrightarrow>
   accumulate d (Some b) p =
     b\<lparr>events := events b @ [p], hasViralContent := True,
       topHashtag := (if falsy (topHashtag b) \<or> trendingRank p = 1 then hashtag p
                      else topHashtag b)\<rparr>"
  by (simp add: accumulate_def Let_def list_ex_id)

lemma accumulate_cases:
  obtains (new) "old = None"
    "accumulate d old p = \<lparr>date = d, events = [p], hasViralContent = True, topHashtag = hashtag p\<rparr>"
  | (skip) b where "old = Some b" "id_ev p \<in> id_ev ` set (events b)" "accumulate d old p = b"
  | (push) b where "old = Some b" "id_ev p \<notin> id_ev ` set (events b)"
      "accumulate d old p =
         b\<lparr>events := events b @ [p], hasViralContent := True,
           topHashtag := (if falsy (topHashtag b) \<or> trendingRank p = 1 then hashtag p
                          else topHashtag b)\<rparr>"
proof (cases old)
  case None
  then show ?thesis using new accumulate_new by simp
next
  case (Some b)
  then show ?thesis using skip [of b] push [of b] accumulate_skip accumulate_push by blast
qed

lemma preserved_nonempty:
  "preserved (\<lambda>d b. hasViralContent b \<and> events b \<noteq> []) (\<lambda>p. True) clock"
  unfolding preserved_def
proof (intro allI impI)
  fix n and old :: "DayData option" and p
  assume "\<forall>b. old = Some b \<longrightarrow> hasViralContent b \<and> events b \<noteq> []"
  then show "hasViralContent (accumulate (clock n) old p) \<and> events (accumulate (clock n) old p) \<noteq> []"
    by (cases rule: accumulate_cases [where old = old and p = p and d = "clock n"]) auto
qed

lemma preserved_distinct_ids:
  "preserved (\<lambda>d b. distinct (map id_ev (events b)) \<and> date b = d) (\<lambda>p. True) clock"
  unfolding preserved_def
proof (intro allI impI)
  fix n and old :: "DayData option" and p
  assume "\<forall>b. old = Some b \<longrightarrow> distinct (map id_ev (events b)) \<and> date b = clock n"
  then show "distinct (map id_ev (events (accumulate (clock n) old p))) \<and>
             date (accumulate (clock n) old p) = clock n"
    by (cases rule: accumulate_cases [where old = old and p = p and d = "clock n"]) auto
qed

lemma preserved_key_read:
  "preserved (\<lambda>d b. d \<in> range clock) (\<lambda>p. True) clock"
  by (simp add: preserved_def)

lemma repliesAll_True: "repliesAll (\<lambda>p. True) w"
  by (simp add: repliesAll_def)


lemma headHashtag_append: "es \<noteq> [] \<Longrightarrow> headHashtag (es @ [p]) = headHashtag es"
  by (cases es) (simp_all add: headHashtag_def)

lemma importerTopHashtag_Nil: "importerTopHashtag [] = None"
  by (simp add: importerTopHashtag_def headHashtag_def)

lemma importerTopHashtag_snoc:
  "importerTopHashtag (es @ [p]) =
     (if trendingRank p = 1 \<or> es = [] then hashtag p else importerTopHashtag es)"
  by (cases es) (auto simp: importerTopHashtag_def Let_def headHashtag_def)

lemma importerTopHashtag_member:
  assumes "es \<noteq> []"
  shows "\<exists>e \<in> set es. importerTopHashtag es = hashtag e"
proof (cases "filter (\<lambda>e. trendingRank e = 1) es = []")
  case True
  with assms show ?thesis
    by (cases es) (auto simp: importerTopHashtag_def Let_def headHashtag_def)
next
  case False
  then have "last (filter (\<lambda>e. trendingRank e = 1) es) \<in> set (filter (\<lambda>e. trendingRank e = 1) es)"
    by (rule last_in_set)
  with False show ?thesis by (auto simp: importerTopHashtag_def Let_def)
qed

lemma preserved_topHashtag:
  "preserved (\<lambda>d b. (\<forall>e \<in> set (events b). \<not> falsy (hashtag e)) \<and>
                       topHashtag b = importerTopHashtag (events b))
     (\<lambda>p. \<not> falsy (hashtag p)) clock"
  unfolding preserved_def
proof (intro allI impI)
  fix n and old :: "DayData option" and p :: ViralEvent
  assume q: "\<not> falsy (hashtag p)"
    and inv: "\<forall>b. old = Some b \<longrightarrow>
                (\<forall>e \<in> set (events b). \<not> falsy (hashtag e)) \<and>
                topHashtag b = importerTopHashtag (events b)"
  let ?b' = "accumulate (clock n) old p"
  show "(\<forall>e \<in> set (events ?b'). \<not> falsy (hashtag e)) \<and>
        topHashtag ?b' = importerTopHashtag (events ?b')"
  proof (cases rule: accumulate_cases [where old = old and p = p and d = "clock n"])
    case new
    with q show ?thesis by (simp add: importerTopHashtag_def headHashtag_def)
  next
    case (skip b)
    with inv show ?thesis by simp
  next
    case (push b)
    from inv push(1) have ok: "\<forall>e \<in> set (events b). \<not> falsy (hashtag e)"
      and top: "topHashtag b = importerTopHashtag (events b)" by simp_all
    have "falsy (topHashtag b) \<Longrightarrow> events b = []"
    proof (rule ccontr)
      assume f: "falsy (topHashtag b)" and ne: "events b \<noteq> []"
      from importerTopHashtag_member [OF ne] obtain e
        where "e \<in> set (events b)" "importerTopHashtag (events b) = hashtag e" by blast
      with ok top f show False by simp
    qed
    moreover have "events b = [] \<Longrightarrow> falsy (topHashtag b)"
      using top by (simp add: importerTopHashtag_Nil falsy_def)
    ultimately have "falsy (topHashtag b) \<longleftrightarrow> events b = []" by blast
    with push(3) ok q top show ?thesis
      by (auto simp: importerTopHashtag_snoc)
  qed
qed

text \<open>The events held by the buckets only grow, and by the posts processed.\<close>

lemma accumulated_iff:
  "e \<in> accumulated m \<longleftrightarrow> (\<exists>d b. m d = Some b \<and> e \<in> set (events b))"
  by (simp add: accumulated_def)

lemma events_accumulate:
  "set (events (accumulate d old p)) \<subseteq> (case old of None \<Rightarrow> {} | Some b \<Rightarrow> set (events b)) \<union> {p} \<and>
   (case old of None \<Rightarrow> {} | Some b \<Rightarrow> set (events b)) \<subseteq> set (events (accumulate d old p))"
  by (cases rule: accumulate_cases [where old = old and p = p and d = d]) auto

lemma accumulated_processPost_mono:
  "accumulated (importedData st) \<subseteq> accumulated (importedData (processPost clock st p))"
proof
  fix e assume "e \<in> accumulated (importedData st)"
  then obtain d b where db: "importedData st d = Some b" "e \<in> set (events b)"
    by (auto simp: accumulated_iff)
  show "e \<in> accumulated (importedData (processPost clock st p))"
  proof (cases "d = clock (clockReads st)")
    case True
    with db events_accumulate [of d "importedData st d" p]
    have "e \<in> set (events (accumulate d (importedData st d) p))" by auto
    with True show ?thesis
      by (auto simp: accumulated_iff importedData_processPost)
  next
    case False
    with db show ?thesis by (auto simp: accumulated_iff importedData_processPost)
  qed
qed

lemma accumulated_processPost_upper:
  "accumulated (importedData (processPost clock st p)) \<subseteq> accumulated (importedData st) \<union> {p}"
proof
  fix e assume "e \<in> accumulated (importedData (processPost clock st p))"
  then obtain d b where db: "importedData (processPost clock st p) d = Some b" "e \<in> set (events b)"
    by (auto simp: accumulated_iff)
  show "e \<in> accumulated (importedData st) \<union> {p}"
  proof (cases "d = clock (clockReads st)")
    case True
    with db have "b = accumulate d (importedData st d) p"
      by (simp add: importedData_processPost)
    with db(2) events_accumulate [of d "importedData st d" p]
    have "e = p \<or> (\<exists>b0. importedData st d = Some b0 \<and> e \<in> set (events b0))"
      by (cases "importedData st d") auto
    then show ?thesis by (auto simp: accumulated_iff)
  next
    case False
    with db show ?thesis by (auto simp: accumulated_iff importedData_processPost)
  qed
qed

lemma accumulated_processPost_added:
  assumes "id_ev p \<notin> id_ev ` accumulated (importedData st)"
  shows "p \<in> accumulated (importedData (processPost clock st p))"
proof -
  let ?d = "clock (clockReads st)"
  have "p \<in> set (events (accumulate ?d (importedData st ?d) p))"
  proof (cases rule: accumulate_cases [where old = "importedData st ?d" and p = p and d = ?d])
    case new
    then show ?thesis by simp
  next
    case (skip b)
    then obtain x where x: "x \<in> set (events b)" "id_ev x = id_ev p" by auto
    from x(1) skip(1) have "x \<in> accumulated (importedData st)"
      by (auto simp: accumulated_iff)
    with x(2) assms show ?thesis by (metis imageI)
  next
    case (push b)
    then show ?thesis by simp
  qed
  then show ?thesis by (auto simp: accumulated_iff importedData_processPost)
qed

lemma accumulated_processPosts_mono:
  "accumulated (importedData st) \<subseteq> accumulated (importedData (processPosts clock posts st))"
proof (induction posts arbitrary: st)
  case Nil
  show ?case by (simp add: processPosts_Nil)
next
  case (Cons p ps)
  have "accumulated (importedData st) \<subseteq> accumulated (importedData (processPost clock st p))"
    by (rule accumulated_processPost_mono)
  also have "\<dots> \<subseteq> accumulated (importedData (processPosts clock ps (processPost clock st p)))"
    by (rule Cons.IH)
  finally show ?case by (simp add: processPosts_Cons)
qed

lemma accumulated_processPosts_upper:
  "accumulated (importedData (processPosts clock posts st)) \<subseteq>
     accumulated (importedData st) \<union> set posts"
proof (induction posts arbitrary: st)
  case Nil
  show ?case by (simp add: processPosts_Nil)
next
  case (Cons p ps)
  have "accumulated (importedData (processPosts clock ps (processPost clock st p))) \<subseteq>
          accumulated (importedData (processPost clock st p)) \<union> set ps"
    by (rule Cons.IH)
  also have "\<dots> \<subseteq> (accumulated (importedData st) \<union> {p}) \<union> set ps"
    by (rule Un_mono [OF accumulated_processPost_upper subset_refl])
  also have "\<dots> = accumulated (importedData st) \<union> set (p # ps)" by auto
  finally show ?case by (simp only: processPosts_Cons)
qed

lemma accumulated_processPosts_added:
  assumes "distinct (map id_ev posts)"
    and "\<forall>x \<in> set posts. id_ev x \<notin> id_ev ` accumulated (importedData st)"
  shows "set posts \<subseteq> accumulated (importedData (processPosts clock posts st))"
  using assms
proof (induction posts arbitrary: st)
  case Nil
  show ?case by simp
next
  case (Cons p ps)
  let ?st1 = "processPost clock st p"
  from Cons.prems(2) have "id_ev p \<notin> id_ev ` accumulated (importedData st)" by simp
  then have p_in: "p \<in> accumulated (importedData ?st1)"
    by (rule accumulated_processPost_added)
  have upper: "accumulated (importedData ?st1) \<subseteq> accumulated (importedData st) \<union> {p}"
    by (rule accumulated_processPost_upper)
  have fresh: "\<forall>x \<in> set ps. id_ev x \<notin> id_ev ` accumulated (importedData ?st1)"
  proof (intro ballI notI)
    fix x assume x: "x \<in> set ps" and "id_ev x \<in> id_ev ` accumulated (importedData ?st1)"
    then obtain e where e: "e \<in> accumulated (importedData ?st1)" "id_ev x = id_ev e"
      by (rule_tac imageE)
    from e(1) upper have "e = p \<or> e \<in> accumulated (importedData st)" by blast
    then show False
    proof
      assume "e = p"
      with e(2) x Cons.prems(1) show False by (auto simp: image_iff)
    next
      assume "e \<in> accumulated (importedData st)"
      with e(2) have "id_ev x \<in> id_ev ` accumulated (importedData st)" by simp
      with x Cons.prems(2) show False by simp
    qed
  qed
  from Cons.prems(1) have "distinct (map id_ev ps)" by simp
  from Cons.IH [OF this fresh]
  have "set ps \<subseteq> accumulated (importedData (processPosts clock ps ?st1))" .
  moreover from p_in accumulated_processPosts_mono [of ?st1 clock ps]
  have "p \<in> accumulated (importedData (processPosts clock ps ?st1))" by (rule subsetD [rotated])
  ultimately show ?case by (simp add: processPosts_Cons)
qed

section \<open>The aggregator: facts about its steps\<close>

lemma length_withRanks: "length (withRanks evs) = length evs"
  by (simp add: withRanks_def)

lemma withRanks_Nil_iff: "withRanks evs = [] \<longleftrightarrow> evs = []"
  by (cases evs) (simp_all add: withRanks_def)

lemma dedupKey_a: "title a = ''Breaking News Today'' \<Longrightarrow> dedupKey a = ''breakingnewstoday''"
  by (simp add: dedupKey_def toLowerCase_def lower_char_def is_lower_alnum_def)

lemma dedupKey_b: "title b = ''breaking news today!!'' \<Longrightarrow> dedupKey b = ''breakingnewstoday''"
  by (simp add: dedupKey_def toLowerCase_def lower_char_def is_lower_alnum_def)


lemma removeDuplicates_pair:
  "dedupKey a = dedupKey b \<Longrightarrow> removeDuplicates [a, b] = [a]"
  by (simp add: removeDuplicates_def Let_def)

lemma removeDuplicates_single: "removeDuplicates [a] = [a]"
  by (simp add: removeDuplicates_def Let_def)

lemma slice0_single: "1 \<le> n \<Longrightarrow> slice0 n [a] = [a]"
  by (simp add: slice0_def)

lemma withRanks_single: "withRanks [a] = [a\<lparr>trendingRank := 1\<rparr>]"
  by (simp add: withRanks_def)

lemma sortByPostCount_single: "sortByPostCount [a] = [a]"
  by (simp add: sortByPostCount_def)

lemma aggregateBucket_scenario:
  assumes ta: "title a = ''Breaking News Today''" and tb: "title b = ''breaking news today!!''"
    and pa: "postCount a = 500" and pb: "postCount b = 300"
    and news: "newsOnly' \<longrightarrow> isNewsEvent a" and mr: "1 \<le> maxResults'"
  shows "aggregateBucket today newsOnly' 100 maxResults' [a, b] =
           \<lparr>date = today, events = [a\<lparr>trendingRank := 1\<rparr>], hasViralContent = True,
            topHashtag = hashtag a\<rparr>"
proof -
  have key: "dedupKey a = dedupKey b" by (simp add: dedupKey_a [OF ta] dedupKey_b [OF tb])
  have f1: "filter (\<lambda>e. postCount e \<ge> 100) [a, b] = [a, b]" by (simp add: pa pb)
  have u: "removeDuplicates (if newsOnly' then filter isNewsEvent [a, b] else [a, b]) = [a]"
  proof (cases newsOnly')
    case True
    with news have "isNewsEvent a" by simp
    then have "filter isNewsEvent [a, b] = [a, b] \<or> filter isNewsEvent [a, b] = [a]" by simp
    with True show ?thesis
      by (auto simp: removeDuplicates_pair [OF key] removeDuplicates_single)
  next
    case False
    then show ?thesis by (simp add: removeDuplicates_pair [OF key])
  qed
  show ?thesis
    unfolding aggregateBucket_def Let_def f1 u
    by (simp add: sortByPostCount_single slice0_single [OF mr] withRanks_single headHashtag_def)
qed


lemma exEventA_not_news: "\<not> isNewsEvent exEventA"
  by (simp add: isNewsEvent_def hashtag_includes_def exEventA_def mkEvent_def)

lemma exEventB_news: "isNewsEvent exEventB"
  by (simp add: isNewsEvent_def exEventB_def mkEvent_def)

lemma exEvent_scores: "postCount exEventA = 500" "postCount exEventB = 300"
  by (simp_all add: exEventA_def exEventB_def mkEvent_def)

lemma exEvent_ids: "id_ev exEventA = ''a''" "id_ev exEventB = ''b''"
  by (simp_all add: exEventA_def exEventB_def mkEvent_def)

lemma exSources_collect:
  "collectEvents [Reddit, Hackernews] (exSources a b) = [a, b]"
  by (simp add: collectEvents_def exSources_def pushed_def)

lemma exBucket_news_gate:
  "aggregateBucket today True 100 100 [exEventA, exEventB] =
     \<lparr>date = today, events = [exEventB\<lparr>trendingRank := 1\<rparr>], hasViralContent = True,
      topHashtag = hashtag exEventB\<rparr>"
  by (simp add: aggregateBucket_def Let_def exEventA_not_news exEventB_news exEvent_scores
        removeDuplicates_single sortByPostCount_single slice0_def withRanks_single
        headHashtag_def)

section \<open>The example runs of the importer\<close>

lemma getAll_counter:
  "getAll (QueryData (Some [exSummary])) =
     Some (Map.empty(''2025-01-01'' \<mapsto>
       \<lparr>date = ''2025-01-01'', events = [], hasViralContent = True,
        topHashtag = Some ''#r/news''\<rparr>))"
  by (simp add: getAll_def pushed_def exSummary_def)


lemma exUntagged_run:
  "importHistoricalData exClock exRedditUntagged exImportOptions =
     Map.empty(''2025-01-01'' \<mapsto>
       \<lparr>date = ''2025-01-01'', events = exUntagged, hasViralContent = True,
        topHashtag = Some ''#r/b''\<rparr>)"
  by (simp add: importHistoricalData_def importRun_def mainLoop_def Let_def initialState_def
        exImportOptions_def exRedditUntagged_def exUntagged_def mkEvent_def exClock_def
        processPosts_def processPost_def accumulate_def falsy_def)

lemma exFive_run:
  "importHistoricalData exClock exReddit exImportOptions =
     Map.empty(''2025-01-01'' \<mapsto>
       \<lparr>date = ''2025-01-01'', events = exFivePosts @ [hd exAllTime], hasViralContent = True,
        topHashtag = Some ''#r/all''\<rparr>)"
  by (simp add: importHistoricalData_def importRun_def mainLoop_def Let_def initialState_def
        exImportOptions_def exReddit_def exFivePosts_def exAllTime_def mkEvent_def exClock_def
        processPosts_def processPost_def accumulate_def falsy_def)

section \<open>The claims\<close>

text \<open>
  C3. Local data comes before mock data. \<open>getDayData\<close> of \<open>useRedditData\<close> asks its
  live data first; for a date that the live data does not hold, it returns the mock
  entry when the date is in the mock data only, and the historical entry when the date
  is in the historical data and in the mock data. \<open>getDayDataSync\<close> of
  \<open>useSupabaseData\<close> returns the mock entry when the date is in neither of its two local
  maps, the historical entry whenever the historical data holds the date, and otherwise
  the entry of its other local map when that map holds the date. In no case does a date
  of the historical data get the mock entry: \<open>getDayData\<close> then returns the live entry
  if there is one, and the historical entry if not.
\<close>

theorem fallback_local_before_mock:
  "(viralData d = Some m \<and> liveData d = None \<and> historicalData d = None \<longrightarrow>
      getDayData liveData historicalData viralData d = Some m) \<and>
   (viralData d = Some m \<and> liveData d = None \<and> historicalData d = Some h \<longrightarrow>
      getDayData liveData historicalData viralData d = Some h) \<and>
   (viralData d = Some m \<and> historicalData d = None \<and> localData d = None \<longrightarrow>
      getDayDataSync historicalData localData viralData d = Some m) \<and>
   (viralData d = Some m \<and> historicalData d = Some h \<longrightarrow>
      getDayDataSync historicalData localData viralData d = Some h) \<and>
   (viralData d = Some m \<and> historicalData d = None \<and> localData d = Some l \<longrightarrow>
      getDayDataSync historicalData localData viralData d = Some l) \<and>
   (viralData d = Some m \<and> historicalData d = Some h \<longrightarrow>
      getDayData liveData historicalData viralData d =
        (case liveData d of None \<Rightarrow> Some h | Some x \<Rightarrow> Some x))"
proof (intro conjI impI)
  assume "viralData d = Some m \<and> liveData d = None \<and> historicalData d = None"
  then show "getDayData liveData historicalData viralData d = Some m"
    by (simp add: getDayData_def getMockDayData_def)
next
  assume "viralData d = Some m \<and> liveData d = None \<and> historicalData d = Some h"
  then show "getDayData liveData historicalData viralData d = Some h"
    by (simp add: getDayData_def)
next
  assume "viralData d = Some m \<and> historicalData d = None \<and> localData d = None"
  then show "getDayDataSync historicalData localData viralData d = Some m"
    by (simp add: getDayDataSync_def getMockDayData_def)
next
  assume "viralData d = Some m \<and> historicalData d = Some h"
  then show "getDayDataSync historicalData localData viralData d = Some h"
    by (simp add: getDayDataSync_def)
next
  assume "viralData d = Some m \<and> historicalData d = None \<and> localData d = Some l"
  then show "getDayDataSync historicalData localData viralData d = Some l"
    by (simp add: getDayDataSync_def)
next
  assume "viralData d = Some m \<and> historicalData d = Some h"
  then show "getDayData liveData historicalData viralData d =
               (case liveData d of None \<Rightarrow> Some h | Some x \<Rightarrow> Some x)"
    by (simp add: getDayData_def split: option.splits)
qed

theorem fallback_local_before_mock_witness:
  "getDayData Map.empty exHistorical exMock ''2025-01-02'' =
     Some (mkBucket ''2025-01-02'' [exEventB]) \<and>
   getDayData Map.empty exHistorical exMock ''2025-01-01'' =
     Some (mkBucket ''2025-01-01'' [exEventA]) \<and>
   getDayDataSync exHistorical Map.empty exMock ''2025-01-02'' =
     Some (mkBucket ''2025-01-02'' [exEventB]) \<and>
   getDayDataSync exHistorical Map.empty exMock ''2025-01-01'' =
     Some (mkBucket ''2025-01-01'' [exEventA]) \<and>
   getDayDataSync Map.empty exHistorical exMock ''2025-01-01'' =
     Some (mkBucket ''2025-01-01'' [exEventA])"
  using fallback_local_before_mock
          [where viralData = exMock and d = "''2025-01-02''"
             and m = "mkBucket ''2025-01-02'' [exEventB]" and liveData = Map.empty
             and historicalData = exHistorical and localData = Map.empty]
        fallback_local_before_mock
          [where viralData = exMock and d = "''2025-01-01''"
             and m = "mkBucket ''2025-01-01'' [exEventB]" and liveData = Map.empty
             and historicalData = exHistorical and localData = Map.empty
             and h = "mkBucket ''2025-01-01'' [exEventA]"]
        fallback_local_before_mock
          [where viralData = exMock and d = "''2025-01-01''"
             and m = "mkBucket ''2025-01-01'' [exEventB]" and historicalData = Map.empty
             and localData = exHistorical and l = "mkBucket ''2025-01-01'' [exEventA]"]
  by (simp add: exHistorical_def exMock_def)

text \<open>
  C9. When the stored item is missing or parses, and the write succeeds,
  \<open>saveToStorage\<close> leaves a map in which every date of the new map has the bucket of
  the new map, whole, and every other date has the entry it had before.
\<close>

theorem saveToStorage_shallow_merge:
  assumes "existing \<noteq> Unparsable"
  shows "(k \<in> dom data \<longrightarrow>
            loadFromStorage (saveToStorage True existing data) k = data k) \<and>
         (k \<notin> dom data \<longrightarrow>
            loadFromStorage (saveToStorage True existing data) k = loadFromStorage existing k)"
proof (cases existing)
  case NoItem
  then show ?thesis
    by (auto simp: saveToStorage_def loadFromStorage_def Let_def map_add_def split: option.splits)
next
  case Unparsable
  with assms show ?thesis by simp
next
  case (StoredMap m)
  then show ?thesis
    by (auto simp: saveToStorage_def loadFromStorage_def Let_def map_add_def split: option.splits)
qed

theorem saveToStorage_shallow_merge_witness:
  "loadFromStorage (saveToStorage True (StoredMap exMock) exHistorical) ''2025-01-01'' =
     Some (mkBucket ''2025-01-01'' [exEventA]) \<and>
   loadFromStorage (saveToStorage True (StoredMap exMock) exHistorical) ''2025-01-02'' =
     Some (mkBucket ''2025-01-02'' [exEventB])"
  using saveToStorage_shallow_merge [of "StoredMap exMock" "''2025-01-01''" exHistorical]
        saveToStorage_shallow_merge [of "StoredMap exMock" "''2025-01-02''" exHistorical]
  by (simp add: exHistorical_def exMock_def loadFromStorage_def)

text \<open>
  C2, on \<open>getByDateRange\<close>. An answer of the store with one event on each of two dates:
  the bucket of the second date holds one event, and its \<open>trendingRank\<close> is 2, the
  position of the row in the whole answer, not 1.
\<close>

theorem getByDateRange_rank_not_from_one:
  "getByDateRange (QueryData (Some exRows)) = Some (groupByDate 0 exRows Map.empty) \<and>
   groupByDate 0 exRows Map.empty ''2025-01-02'' =
     Some \<lparr>date = ''2025-01-02'', events = [exEventB\<lparr>trendingRank := 2\<rparr>],
           hasViralContent = True, topHashtag = None\<rparr>"
  by (simp add: getByDateRange_def exRows_def Let_def)

text \<open>
  C4, as amended. The aggregator collects the two events \<open>a\<close> ("Breaking News Today",
  score 500) and \<open>b\<close> ("breaking news today!!", score 300), in this order, with
  \<open>minScore\<close> 100. When \<open>a\<close> passes the news filter, which is on unless
  \<open>newsOnly\<close> is false, and \<open>maxResults\<close> is at its default or at least 1, the
  bucket of today holds exactly one event: \<open>a\<close> with \<open>trendingRank\<close> 1.
\<close>

theorem aggregator_scenario_news_gate:
  assumes "title a = ''Breaking News Today''" and "title b = ''breaking news today!!''"
    and "postCount a = 500" and "postCount b = 300"
    and "minScore options = Some 100"
    and "collectEvents (case sources options of None \<Rightarrow> [Reddit, Hackernews] | Some s \<Rightarrow> s) w = [a, b]"
    and "newsOnly options = Some False \<or> isNewsEvent a"
    and "case maxResults options of None \<Rightarrow> True | Some n \<Rightarrow> 1 \<le> n"
  shows "fetchViralContent today w options =
           Map.empty(today \<mapsto>
             \<lparr>date = today, events = [a\<lparr>trendingRank := 1\<rparr>], hasViralContent = True,
              topHashtag = hashtag a\<rparr>)"
proof -
  let ?newsOnly = "case newsOnly options of None \<Rightarrow> True | Some b \<Rightarrow> b"
  let ?maxResults = "case maxResults options of None \<Rightarrow> 100 | Some n \<Rightarrow> n"
  have n: "?newsOnly \<longrightarrow> isNewsEvent a" using assms(7) by auto
  have m: "1 \<le> ?maxResults" using assms(8) by (simp split: option.splits)
  have "fetchViralContent today w options =
          Map.empty(today \<mapsto> aggregateBucket today ?newsOnly 100 ?maxResults [a, b])"
    by (simp add: fetchViralContent_def Let_def assms(5,6))
  also have "aggregateBucket today ?newsOnly 100 ?maxResults [a, b] =
               \<lparr>date = today, events = [a\<lparr>trendingRank := 1\<rparr>], hasViralContent = True,
                topHashtag = hashtag a\<rparr>"
    by (rule aggregateBucket_scenario [OF assms(1-4) n m])
  finally show ?thesis .
qed

theorem aggregator_scenario_news_gate_witness:
  "fetchViralContent ''2025-01-01'' (exSources exEventA_news exEventB) exAggregatorOptions =
     Map.empty(''2025-01-01'' \<mapsto>
       \<lparr>date = ''2025-01-01'', events = [exEventA_news\<lparr>trendingRank := 1\<rparr>],
        hasViralContent = True, topHashtag = Some ''#r/worldnews''\<rparr>)"
  using aggregator_scenario_news_gate [of exEventA_news exEventB exAggregatorOptions
          "exSources exEventA_news exEventB" "''2025-01-01''"]
  by (simp add: exEventA_news_def exEventB_def mkEvent_def exAggregatorOptions_def exSources_def
        collectEvents_def pushed_def isNewsEvent_def)

text \<open>
  C4 as stated fails: the news filter runs before the deduplication. With the default
  options and \<open>minScore\<close> 100, a first event that is not news (a meme posted in
  r/pics) is dropped, and the one event of the bucket is \<open>b\<close>.
\<close>

theorem aggregator_scenario_counterexample:
  "fetchViralContent ''2025-01-01'' (exSources exEventA exEventB) exAggregatorOptions =
     Map.empty(''2025-01-01'' \<mapsto>
       \<lparr>date = ''2025-01-01'', events = [exEventB\<lparr>trendingRank := 1\<rparr>],
        hasViralContent = True, topHashtag = hashtag exEventB\<rparr>) \<and>
   id_ev exEventA = ''a'' \<and> id_ev exEventB = ''b''"
  by (simp add: fetchViralContent_def Let_def exAggregatorOptions_def exSources_collect
        exBucket_news_gate exEvent_ids)

section \<open>Flags and top hashtags, by component\<close>

lemma sort_key_Nil_iff: "sort_key f xs = [] \<longleftrightarrow> xs = []"
  by (metis length_0_conv length_sort)

lemma getAll_buckets:
  assumes "getAll reply = Some m" and "m k = Some b"
  shows "hasViralContent b \<and> events b = []"
proof -
  let ?step = "\<lambda>(result :: string \<rightharpoonup> DayData) summary.
                 result(summary_date summary \<mapsto>
                   \<lparr>date = summary_date summary, events = [], hasViralContent = True,
                    topHashtag = top_hashtag summary\<rparr>)"
  have inv: "bucketsAll (\<lambda>d b. hasViralContent b \<and> events b = []) (foldl ?step m0 rows)"
    if "bucketsAll (\<lambda>d b. hasViralContent b \<and> events b = []) m0" for m0 rows
    using that
  proof (induction rows arbitrary: m0)
    case Nil
    then show ?case by simp
  next
    case (Cons r rows)
    have "bucketsAll (\<lambda>d b. hasViralContent b \<and> events b = []) (?step m0 r)"
      using Cons.prems by (simp add: bucketsAll_def)
    from Cons.IH [OF this] show ?case by simp
  qed
  from assms(1) obtain d where "reply = QueryData d" and m: "m = foldl ?step Map.empty (pushed d)"
    by (cases reply) (auto simp: getAll_def)
  have "bucketsAll (\<lambda>d b. hasViralContent b \<and> events b = []) m"
    unfolding m by (rule inv) (simp add: bucketsAll_def)
  with assms(2) show ?thesis by (simp add: bucketsAll_def)
qed

lemma fetchViralContent_lookup:
  assumes "fetchViralContent today src options k = Some b"
  shows "\<exists>newsOnly' minScore' maxResults' allEvents.
           b = aggregateBucket today newsOnly' minScore' maxResults' allEvents"
  using assms by (auto simp: fetchViralContent_def Let_def split: if_splits)

lemma aggregateBucket_flag:
  "hasViralContent (aggregateBucket today n m r evs) \<longleftrightarrow>
     events (aggregateBucket today n m r evs) \<noteq> []"
  by (simp add: aggregateBucket_def Let_def withRanks_Nil_iff)

text \<open>
  C8, as amended. In a bucket built by \<open>createDayData\<close> or by the aggregator,
  \<open>hasViralContent\<close> says whether the bucket has events. Every bucket of an import has
  events and has the flag set. A bucket of the summary read \<open>getAll\<close> has the flag set
  and no events: its events are loaded later.
\<close>

theorem hasViralContent_by_component:
  "(hasViralContent (createDayData dateStr evs) \<longleftrightarrow> events (createDayData dateStr evs) \<noteq> []) \<and>
   (fetchViralContent today src aoptions ka = Some ba \<longrightarrow>
      (hasViralContent ba \<longleftrightarrow> events ba \<noteq> [])) \<and>
   (importHistoricalData clock w options kb = Some bb \<longrightarrow>
      hasViralContent bb \<and> events bb \<noteq> []) \<and>
   (getAll reply = Some m \<and> m kc = Some bc \<longrightarrow> hasViralContent bc \<and> events bc = [])"
proof (intro conjI impI)
  show "hasViralContent (createDayData dateStr evs) \<longleftrightarrow> events (createDayData dateStr evs) \<noteq> []"
    by (simp add: createDayData_def Let_def sort_key_Nil_iff)
next
  assume "fetchViralContent today src aoptions ka = Some ba"
  from fetchViralContent_lookup [OF this] aggregateBucket_flag
  show "hasViralContent ba \<longleftrightarrow> events ba \<noteq> []" by auto
next
  have "bucketsAll (\<lambda>d b. hasViralContent b \<and> events b \<noteq> [])
          (importHistoricalData clock w options)"
    by (rule importRun_inv [OF preserved_nonempty repliesAll_True])
  moreover assume "importHistoricalData clock w options kb = Some bb"
  ultimately have "hasViralContent bb \<and> events bb \<noteq> []" by (simp add: bucketsAll_def)
  then show "hasViralContent bb" and "events bb \<noteq> []" by simp_all
next
  assume "getAll reply = Some m \<and> m kc = Some bc"
  then have "hasViralContent bc \<and> events bc = []" using getAll_buckets by blast
  then show "hasViralContent bc" and "events bc = []" by simp_all
qed

theorem hasViralContent_by_component_witness:
  "hasViralContent
     \<lparr>date = ''2025-01-01'', events = [], hasViralContent = True,
      topHashtag = Some ''#r/news''\<rparr> \<and>
   events \<lparr>date = ''2025-01-01'', events = exUntagged, hasViralContent = True,
           topHashtag = Some ''#r/b''\<rparr> \<noteq> []"
  using hasViralContent_by_component
          [where reply = "QueryData (Some [exSummary])" and kc = "''2025-01-01''"
             and bc = "\<lparr>date = ''2025-01-01'', events = [], hasViralContent = True,
                        topHashtag = Some ''#r/news''\<rparr>"
             and m = "Map.empty(''2025-01-01'' \<mapsto>
                        \<lparr>date = ''2025-01-01'', events = [], hasViralContent = True,
                         topHashtag = Some ''#r/news''\<rparr>)"
             and clock = exClock and w = exRedditUntagged and options = exImportOptions
             and kb = "''2025-01-01''"
             and bb = "\<lparr>date = ''2025-01-01'', events = exUntagged, hasViralContent = True,
                        topHashtag = Some ''#r/b''\<rparr>"]
  by (simp add: getAll_counter exUntagged_run)

text \<open>
  C8 as stated fails on \<open>getAll\<close>: for one summary row it returns a bucket whose flag
  is set and whose list of events is empty.
\<close>

theorem getAll_flag_without_events:
  "getAll (QueryData (Some [exSummary])) =
     Some (Map.empty(''2025-01-01'' \<mapsto>
       \<lparr>date = ''2025-01-01'', events = [], hasViralContent = True,
        topHashtag = Some ''#r/news''\<rparr>))"
  by (simp add: getAll_def pushed_def exSummary_def)

lemma ranked_lower:
  "e \<in> set (map (\<lambda>(i, e). e\<lparr>trendingRank := int i + 1\<rparr>) (enumerate n evs)) \<Longrightarrow>
   int n + 1 \<le> trendingRank e"
  by (induction evs arbitrary: n) fastforce+

lemma ranked_sorted:
  "sorted (map trendingRank (map (\<lambda>(i, e). e\<lparr>trendingRank := int i + 1\<rparr>) (enumerate n evs)))"
proof (induction evs arbitrary: n)
  case Nil
  show ?case by simp
next
  case (Cons x evs)
  have "\<forall>e \<in> set (map (\<lambda>(i, e). e\<lparr>trendingRank := int i + 1\<rparr>) (enumerate (Suc n) evs)).
          int n + 1 \<le> trendingRank e"
    using ranked_lower [of _ "Suc n" evs] by fastforce
  with Cons.IH [of "Suc n"] show ?case by simp
qed

lemma ranked_no_rank_one:
  "1 \<le> n \<Longrightarrow>
   filter (\<lambda>e. trendingRank e = 1)
     (map (\<lambda>(i, e). e\<lparr>trendingRank := int i + 1\<rparr>) (enumerate n evs)) = []"
  using ranked_lower [of _ n evs] by (fastforce simp: filter_empty_conv)

lemma headHashtag_withRanks: "headHashtag (withRanks evs) = headHashtag evs"
  by (cases evs) (simp_all add: withRanks_def headHashtag_def)

lemma rankOneHashtag_withRanks: "rankOneHashtag (withRanks evs) = headHashtag evs"
proof (cases evs)
  case Nil
  then show ?thesis by (simp add: rankOneHashtag_def withRanks_def headHashtag_def)
next
  case (Cons x xs)
  have "filter (\<lambda>e. trendingRank e = 1)
          (map (\<lambda>(i, e). e\<lparr>trendingRank := int i + 1\<rparr>) (enumerate (Suc 0) xs)) = []"
    by (rule ranked_no_rank_one) simp
  with Cons show ?thesis by (simp add: rankOneHashtag_def withRanks_def headHashtag_def)
qed

lemma highestRankedHashtag_withRanks: "highestRankedHashtag (withRanks evs) = headHashtag evs"
proof -
  have "sorted (map trendingRank (withRanks evs))"
    unfolding withRanks_def by (rule ranked_sorted)
  then have "sort_key trendingRank (withRanks evs) = withRanks evs"
    by (rule sort_key_id_if_sorted)
  then show ?thesis by (simp add: highestRankedHashtag_def headHashtag_withRanks)
qed

lemma aggregateBucket_topHashtag:
  "topHashtag (aggregateBucket today n m r evs) =
     rankOneHashtag (events (aggregateBucket today n m r evs)) \<and>
   topHashtag (aggregateBucket today n m r evs) =
     highestRankedHashtag (events (aggregateBucket today n m r evs))"
  by (simp add: aggregateBucket_def Let_def rankOneHashtag_withRanks
        highestRankedHashtag_withRanks)

lemma createDayData_topHashtag:
  "topHashtag (createDayData dateStr evs) =
     highestRankedHashtag (events (createDayData dateStr evs))"
proof -
  have "sort_key trendingRank (sort_key trendingRank evs) = sort_key trendingRank evs"
    by (rule sort_key_id_if_sorted) (rule sorted_sort_key)
  then show ?thesis by (simp add: createDayData_def Let_def highestRankedHashtag_def)
qed

lemma exReddit_tagged: "repliesAll (\<lambda>p. \<not> falsy (hashtag p)) exReddit"
  by (simp add: repliesAll_def exReddit_def exFivePosts_def exAllTime_def mkEvent_def falsy_def)

lemma exUntagged_readings:
  "rankOneHashtag exUntagged = None \<and> highestRankedHashtag exUntagged = None"
  by (simp add: rankOneHashtag_def highestRankedHashtag_def headHashtag_def exUntagged_def
        mkEvent_def)

text \<open>
  C1, as amended. In the bucket of the aggregator, \<open>topHashtag\<close> is the hashtag of the
  event of rank 1, which is the first event, and is absent when the bucket is empty. In
  a bucket of \<open>createDayData\<close> it is the hashtag of the first event in ascending order
  of rank. The importer keeps the ranks that the events had in their own listings and
  does not sort: when every post has a hashtag that is not empty, \<open>topHashtag\<close> of a
  bucket of an import is the hashtag of the event of rank 1 that was pushed last, or of
  the first event when the bucket has no event of rank 1.
\<close>

theorem topHashtag_by_component:
  "(fetchViralContent today src aoptions ka = Some ba \<longrightarrow>
      topHashtag ba = rankOneHashtag (events ba) \<and>
      topHashtag ba = highestRankedHashtag (events ba)) \<and>
   topHashtag (createDayData dateStr evs) =
     highestRankedHashtag (events (createDayData dateStr evs)) \<and>
   (repliesAll (\<lambda>p. \<not> falsy (hashtag p)) w \<and>
    importHistoricalData clock w options kb = Some bb \<longrightarrow>
      topHashtag bb = importerTopHashtag (events bb))"
proof (intro conjI impI)
  assume "fetchViralContent today src aoptions ka = Some ba"
  from fetchViralContent_lookup [OF this] obtain n m r all
    where ba: "ba = aggregateBucket today n m r all" by blast
  have "topHashtag ba = rankOneHashtag (events ba) \<and>
        topHashtag ba = highestRankedHashtag (events ba)"
    unfolding ba by (rule aggregateBucket_topHashtag)
  then show "topHashtag ba = rankOneHashtag (events ba)"
    and "topHashtag ba = highestRankedHashtag (events ba)" by blast+
next
  show "topHashtag (createDayData dateStr evs) =
          highestRankedHashtag (events (createDayData dateStr evs))"
    by (rule createDayData_topHashtag)
next
  assume a: "repliesAll (\<lambda>p. \<not> falsy (hashtag p)) w \<and>
             importHistoricalData clock w options kb = Some bb"
  then have "bucketsAll (\<lambda>d b. (\<forall>e \<in> set (events b). \<not> falsy (hashtag e)) \<and>
                                  topHashtag b = importerTopHashtag (events b))
               (importHistoricalData clock w options)"
    using importRun_inv [OF preserved_topHashtag] by blast
  with a show "topHashtag bb = importerTopHashtag (events bb)"
    unfolding bucketsAll_def by blast
qed

theorem topHashtag_by_component_witness:
  "Some ''#r/all'' = importerTopHashtag (exFivePosts @ [hd exAllTime])"
  using topHashtag_by_component
          [where w = exReddit and clock = exClock and options = exImportOptions
             and kb = "''2025-01-01''"
             and bb = "\<lparr>date = ''2025-01-01'', events = exFivePosts @ [hd exAllTime],
                        hasViralContent = True, topHashtag = Some ''#r/all''\<rparr>"]
  by (simp add: exReddit_tagged exFive_run)

text \<open>
  C1 as stated fails on the importer. Subreddit \<open>x\<close> answers with two posts: the first
  has rank 1 and no hashtag, the second has rank 2 and the hashtag \<open>#r/b\<close>. The bucket
  of the day then has \<open>topHashtag\<close> \<open>#r/b\<close>, while its only event of rank 1, which is
  also its first event by rank, has no hashtag.
\<close>

theorem importer_topHashtag_counterexample:
  "importHistoricalData exClock exRedditUntagged exImportOptions ''2025-01-01'' =
     Some \<lparr>date = ''2025-01-01'', events = exUntagged, hasViralContent = True,
           topHashtag = Some ''#r/b''\<rparr> \<and>
   rankOneHashtag exUntagged = None \<and> highestRankedHashtag exUntagged = None"
  by (simp add: exUntagged_run exUntagged_readings)

section \<open>The run of an import\<close>

lemma accumulated_empty: "accumulated Map.empty = {}"
  by (simp add: accumulated_def)

lemma accumulated_single: "accumulated (Map.empty(k \<mapsto> b)) = set (events b)"
  by (auto simp: accumulated_def split: if_splits)

lemma allTimeFiltered_score:
  "e \<in> set (allTimeFiltered w options) \<Longrightarrow> 2 * importMinScore options \<le> postCount e"
  by (cases "getPopularPosts w") (auto simp: allTimeFiltered_def importMinScore_def Let_def)

lemma exFive_mainLoop:
  "importedData (mainLoop exClock exReddit exImportOptions) =
     Map.empty(''2025-01-01'' \<mapsto>
       \<lparr>date = ''2025-01-01'', events = exFivePosts, hasViralContent = True,
        topHashtag = Some ''#r/x''\<rparr>)"
  by (simp add: mainLoop_def Let_def initialState_def
        exImportOptions_def exReddit_def exFivePosts_def mkEvent_def exClock_def
        processPosts_def processPost_def accumulate_def falsy_def)

lemma exAllTime_filtered: "allTimeFiltered exReddit exImportOptions = [hd exAllTime]"
  by (simp add: allTimeFiltered_def Let_def exReddit_def exImportOptions_def exAllTime_def
        mkEvent_def)

lemma exAllTime_new: "hd exAllTime \<notin> set exFivePosts"
  by (simp add: exAllTime_def exFivePosts_def mkEvent_def)

text \<open>
  C5. Subreddits \<open>x\<close> and \<open>y\<close>, the one timeframe \<open>day\<close>, \<open>maxPosts\<close> 1, and
  subreddit \<open>x\<close> answers the first request with posts of which five, with five
  different ids, pass the score filter. Then the only request for a subreddit is the one
  for \<open>x\<close>, the count of processed posts is 5, above the cap, and each of the five
  posts is in a bucket of the result.
\<close>

theorem import_scenario_cap_overshoot:
  assumes subs: "subreddits options = Some [''x'', ''y'']"
    and tfs: "timeframes options = Some [Day]"
    and cap: "maxPosts options = Some 1"
    and reply: "getSubredditPosts w 0 ''x'' Day = Some posts"
    and five: "length (filter (\<lambda>post. postCount post \<ge> importMinScore options) posts) = 5"
    and ids: "distinct (map id_ev (filter (\<lambda>post. postCount post \<ge> importMinScore options) posts))"
  shows "requests (importRun clock w options) = [(''x'', Day)] \<and>
         totalProcessed (importRun clock w options) = 5 \<and>
         set (filter (\<lambda>post. postCount post \<ge> importMinScore options) posts) \<subseteq>
           accumulated (importHistoricalData clock w options)"
proof -
  let ?fp = "filter (\<lambda>post. postCount post \<ge> importMinScore options) posts"
  let ?asked = "initialState\<lparr>requests := [(''x'', Day)]\<rparr>"
  let ?st1 = "processPosts clock ?fp ?asked"
  let ?st2 = "?st1\<lparr>totalProcessed := 5\<rparr>"
  have total1: "totalProcessed ?st1 = 0"
    by (simp add: totalProcessed_processPosts initialState_def)
  have sub: "subredditLoop clock w (importMinScore options) 1 Day [''x'', ''y''] initialState = ?st2"
    using reply five total1 by (simp add: Let_def initialState_def)
  have main: "mainLoop clock w options = ?st2"
    unfolding mainLoop_def Let_def subs tfs cap option.case importMinScore_def [symmetric]
    using sub by (simp add: initialState_def)
  have run: "importRun clock w options = processPosts clock (allTimeFiltered w options) ?st2"
    by (simp only: importRun_eq main)
  have "requests ?st2 = [(''x'', Day)]"
    by (simp add: requests_processPosts)
  then have r: "requests (importRun clock w options) = [(''x'', Day)]"
    by (simp only: run requests_processPosts)
  have t: "totalProcessed (importRun clock w options) = 5"
    by (simp add: run totalProcessed_processPosts)
  have "\<forall>x \<in> set ?fp. id_ev x \<notin> id_ev ` accumulated (importedData ?asked)"
    by (simp add: initialState_def accumulated_empty)
  from accumulated_processPosts_added [OF ids this]
  have "set ?fp \<subseteq> accumulated (importedData ?st1)" .
  also have "importedData ?st1 = importedData ?st2" by simp
  also have "accumulated (importedData ?st2) \<subseteq>
               accumulated (importedData (processPosts clock (allTimeFiltered w options) ?st2))"
    by (rule accumulated_processPosts_mono)
  finally have a: "set ?fp \<subseteq> accumulated (importHistoricalData clock w options)"
    by (simp only: importHistoricalData_def run)
  from r t a show ?thesis by blast
qed

theorem import_scenario_cap_overshoot_witness:
  "requests (importRun exClock exReddit exImportOptions) = [(''x'', Day)] \<and>
   totalProcessed (importRun exClock exReddit exImportOptions) = 5 \<and>
   set exFivePosts \<subseteq> accumulated (importHistoricalData exClock exReddit exImportOptions)"
  using import_scenario_cap_overshoot
          [of exImportOptions exReddit exFivePosts exClock]
  by (simp add: exImportOptions_def exReddit_def exFivePosts_def mkEvent_def importMinScore_def)

text \<open>
  Each post is filed under the date read for it; a bucket keeps its events and gains
  only posts.
\<close>

lemma clockReads_processPost: "clockReads (processPost clock st p) = Suc (clockReads st)"
  by (simp add: processPost_def Let_def)

lemma clockReads_processPosts:
  "clockReads (processPosts clock posts st) = clockReads st + length posts"
  by (induction posts arbitrary: st)
     (simp_all add: processPosts_Nil processPosts_Cons clockReads_processPost)

lemma bucketOf_processPost_mono:
  assumes "importedData st d = Some b"
  shows "\<exists>b'. importedData (processPost clock st p) d = Some b' \<and>
              set (events b) \<subseteq> set (events b')"
proof (cases "d = clock (clockReads st)")
  case True
  with assms events_accumulate [of d "importedData st d" p] show ?thesis
    by (simp add: importedData_processPost)
next
  case False
  with assms show ?thesis by (simp add: importedData_processPost)
qed

lemma bucketOf_processPosts_mono:
  assumes "importedData st d = Some b"
  shows "\<exists>b'. importedData (processPosts clock posts st) d = Some b' \<and>
              set (events b) \<subseteq> set (events b')"
  using assms
proof (induction posts arbitrary: st b)
  case Nil
  then show ?case by (simp add: processPosts_Nil)
next
  case (Cons q qs)
  from bucketOf_processPost_mono [OF Cons.prems, of clock q] obtain b1
    where b1: "importedData (processPost clock st q) d = Some b1"
      "set (events b) \<subseteq> set (events b1)" by blast
  from Cons.IH [OF b1(1)] obtain b'
    where "importedData (processPosts clock qs (processPost clock st q)) d = Some b'"
      "set (events b1) \<subseteq> set (events b')" by blast
  with b1(2) show ?case by (auto simp: processPosts_Cons)
qed

lemma processPost_files_id:
  "\<exists>b. importedData (processPost clock st p) (clock (clockReads st)) = Some b \<and>
       id_ev p \<in> id_ev ` set (events b)"
proof -
  let ?now = "clock (clockReads st)"
  have "id_ev p \<in> id_ev ` set (events (accumulate ?now (importedData st ?now) p))"
    by (cases rule: accumulate_cases [where old = "importedData st ?now" and p = p and d = ?now])
       simp_all
  then show ?thesis by (simp add: importedData_processPost)
qed

lemma processPosts_files_nth:
  assumes "i < length posts"
  shows "\<exists>b. importedData (processPosts clock posts st) (clock (clockReads st + i)) = Some b \<and>
             id_ev (posts ! i) \<in> id_ev ` set (events b)"
  using assms
proof (induction posts arbitrary: st i)
  case Nil
  then show ?case by simp
next
  case (Cons q qs)
  show ?case
  proof (cases i)
    case 0
    from processPost_files_id [of clock st q] obtain b1
      where b1: "importedData (processPost clock st q) (clock (clockReads st)) = Some b1"
        "id_ev q \<in> id_ev ` set (events b1)" by blast
    from bucketOf_processPosts_mono [OF b1(1), of clock qs] obtain b'
      where "importedData (processPosts clock qs (processPost clock st q))
               (clock (clockReads st)) = Some b'"
        "set (events b1) \<subseteq> set (events b')" by blast
    with b1(2) 0 show ?thesis by (auto simp: processPosts_Cons)
  next
    case (Suc j)
    with Cons.prems have "j < length qs" by simp
    from Cons.IH [OF this, of "processPost clock st q"] Suc show ?thesis
      by (simp add: processPosts_Cons clockReads_processPost)
  qed
qed

lemma processPosts_adds_one:
  assumes "p \<in> set posts"
    and "id_ev p \<notin> id_ev ` accumulated (importedData st)"
    and "\<forall>q \<in> set posts. id_ev q = id_ev p \<longrightarrow> q = p"
  shows "p \<in> accumulated (importedData (processPosts clock posts st))"
  using assms
proof (induction posts arbitrary: st)
  case Nil
  then show ?case by simp
next
  case (Cons q qs)
  show ?case
  proof (cases "q = p")
    case True
    from Cons.prems(2) have "p \<in> accumulated (importedData (processPost clock st p))"
      by (rule accumulated_processPost_added)
    with accumulated_processPosts_mono [of "processPost clock st p" clock qs] True
    show ?thesis by (auto simp: processPosts_Cons)
  next
    case False
    with Cons.prems(1) have in_qs: "p \<in> set qs" by simp
    from False Cons.prems(3) have ne: "id_ev q \<noteq> id_ev p" by auto
    have fresh: "id_ev p \<notin> id_ev ` accumulated (importedData (processPost clock st q))"
    proof
      assume "id_ev p \<in> id_ev ` accumulated (importedData (processPost clock st q))"
      then obtain e where e: "e \<in> accumulated (importedData (processPost clock st q))"
        "id_ev p = id_ev e" by (rule_tac imageE)
      from e(1) accumulated_processPost_upper [of clock st q]
      have "e = q \<or> e \<in> accumulated (importedData st)" by blast
      then show False
      proof
        assume "e = q" with e(2) ne show False by simp
      next
        assume "e \<in> accumulated (importedData st)"
        with e(2) have "id_ev p \<in> id_ev ` accumulated (importedData st)" by simp
        with Cons.prems(2) show False by simp
      qed
    qed
    from Cons.prems(3) have "\<forall>q \<in> set qs. id_ev q = id_ev p \<longrightarrow> q = p" by simp
    from Cons.IH [OF in_qs fresh this] show ?thesis by (simp add: processPosts_Cons)
  qed
qed

lemma bucketOf_processPost_upper:
  assumes "importedData (processPost clock st p) d = Some b" and "e \<in> set (events b)"
  shows "e = p \<or> (\<exists>b0. importedData st d = Some b0 \<and> e \<in> set (events b0))"
proof (cases "d = clock (clockReads st)")
  case True
  with assms(1) have "b = accumulate d (importedData st d) p"
    by (simp add: importedData_processPost)
  with assms(2) events_accumulate [of d "importedData st d" p] show ?thesis
    by (cases "importedData st d") auto
next
  case False
  with assms show ?thesis by (simp add: importedData_processPost)
qed

lemma bucketOf_processPosts_upper:
  assumes "importedData (processPosts clock posts st) d = Some b" and "e \<in> set (events b)"
  shows "e \<in> set posts \<or> (\<exists>b0. importedData st d = Some b0 \<and> e \<in> set (events b0))"
  using assms
proof (induction posts arbitrary: st)
  case Nil
  then show ?case by (simp add: processPosts_Nil)
next
  case (Cons q qs)
  from Cons.prems(1) have "importedData (processPosts clock qs (processPost clock st q)) d = Some b"
    by (simp add: processPosts_Cons)
  from Cons.IH [OF this Cons.prems(2)]
  have "e \<in> set qs \<or>
        (\<exists>b1. importedData (processPost clock st q) d = Some b1 \<and> e \<in> set (events b1))" .
  then show ?case
  proof
    assume "e \<in> set qs" then show ?thesis by simp
  next
    assume "\<exists>b1. importedData (processPost clock st q) d = Some b1 \<and> e \<in> set (events b1)"
    then obtain b1 where "importedData (processPost clock st q) d = Some b1" "e \<in> set (events b1)"
      by blast
    from bucketOf_processPost_upper [OF this] show ?thesis by auto
  qed
qed

lemma allTimeFiltered_Some:
  "getPopularPosts w = Some ps \<Longrightarrow>
   allTimeFiltered w options = filter (\<lambda>post. postCount post \<ge> importMinScore options * 2) ps"
  by (simp add: allTimeFiltered_def importMinScore_def Let_def)

lemma importRun_None:
  "getPopularPosts w = None \<Longrightarrow> importRun clock w options = mainLoop clock w options"
  by (simp add: importRun_def Let_def)

lemma exFive_ids_new:
  "id_ev (hd exAllTime) \<notin> id_ev ` set exFivePosts"
  by (simp add: exAllTime_def exFivePosts_def mkEvent_def)

text \<open>
  C7. The request to r/all keeps the posts with a score of at least twice the threshold,
  and \<open>processPosts\<close> accumulates them as it accumulates the posts of the loops. Each of
  these posts is filed under the date read for it: afterwards the bucket of that date
  holds an event with the id of the post, and the post itself is in the result when its
  id is new. The buckets of the loops keep their events. An event of a bucket of the
  result that was not in the bucket of this date when the loops were done is one of
  these posts, so its score is at least twice the threshold. In every bucket of the
  result the ids of the events are distinct and the date of the bucket is its key.
\<close>

theorem broader_fetch_merged:
  "(getPopularPosts w = Some ps \<longrightarrow>
      allTimeFiltered w options =
        filter (\<lambda>post. postCount post \<ge> importMinScore options * 2) ps) \<and>
   (getPopularPosts w = None \<longrightarrow> importRun clock w options = mainLoop clock w options) \<and>
   importRun clock w options =
     processPosts clock (allTimeFiltered w options) (mainLoop clock w options) \<and>
   (i < length (allTimeFiltered w options) \<longrightarrow>
      (\<exists>b. importHistoricalData clock w options
              (clock (clockReads (mainLoop clock w options) + i)) = Some b \<and>
           id_ev (allTimeFiltered w options ! i) \<in> id_ev ` set (events b))) \<and>
   (p \<in> set (allTimeFiltered w options) \<and>
    id_ev p \<notin> id_ev ` accumulated (importedData (mainLoop clock w options)) \<and>
    (\<forall>q \<in> set (allTimeFiltered w options). id_ev q = id_ev p \<longrightarrow> q = p) \<longrightarrow>
      p \<in> accumulated (importHistoricalData clock w options)) \<and>
   (importedData (mainLoop clock w options) d = Some b0 \<longrightarrow>
      (\<exists>b. importHistoricalData clock w options d = Some b \<and>
           set (events b0) \<subseteq> set (events b))) \<and>
   (importHistoricalData clock w options d = Some b \<and> e \<in> set (events b) \<and>
    (\<forall>b0. importedData (mainLoop clock w options) d = Some b0 \<longrightarrow> e \<notin> set (events b0)) \<longrightarrow>
      e \<in> set (allTimeFiltered w options) \<and> 2 * importMinScore options \<le> postCount e) \<and>
   (e \<in> accumulated (importHistoricalData clock w options) \<and>
    e \<notin> accumulated (importedData (mainLoop clock w options)) \<longrightarrow>
      e \<in> set (allTimeFiltered w options) \<and> 2 * importMinScore options \<le> postCount e) \<and>
   (importHistoricalData clock w options d = Some b \<longrightarrow>
      distinct (map id_ev (events b)) \<and> date b = d)"
proof -
  let ?f = "allTimeFiltered w options"
  let ?main = "mainLoop clock w options"
  have res: "importHistoricalData clock w options = importedData (processPosts clock ?f ?main)"
    by (simp add: importHistoricalData_def importRun_eq)
  have c1: "getPopularPosts w = Some ps \<longrightarrow>
              ?f = filter (\<lambda>post. postCount post \<ge> importMinScore options * 2) ps"
    by (simp add: allTimeFiltered_Some)
  have c2: "getPopularPosts w = None \<longrightarrow> importRun clock w options = ?main"
    by (simp add: importRun_None)
  have c3: "importRun clock w options = processPosts clock ?f ?main"
    by (rule importRun_eq)
  have c4: "i < length ?f \<longrightarrow>
      (\<exists>b. importHistoricalData clock w options (clock (clockReads ?main + i)) = Some b \<and>
           id_ev (?f ! i) \<in> id_ev ` set (events b))"
    unfolding res using processPosts_files_nth [of i ?f clock ?main] by blast
  have c5: "p \<in> set ?f \<and> id_ev p \<notin> id_ev ` accumulated (importedData ?main) \<and>
            (\<forall>q \<in> set ?f. id_ev q = id_ev p \<longrightarrow> q = p) \<longrightarrow>
              p \<in> accumulated (importHistoricalData clock w options)"
    unfolding res using processPosts_adds_one [of p ?f ?main clock] by blast
  have c6: "importedData ?main d = Some b0 \<longrightarrow>
      (\<exists>b. importHistoricalData clock w options d = Some b \<and> set (events b0) \<subseteq> set (events b))"
    unfolding res using bucketOf_processPosts_mono [of ?main d b0 clock ?f] by blast
  have c7: "importHistoricalData clock w options d = Some b \<and> e \<in> set (events b) \<and>
      (\<forall>b0. importedData ?main d = Some b0 \<longrightarrow> e \<notin> set (events b0)) \<longrightarrow>
        e \<in> set ?f \<and> 2 * importMinScore options \<le> postCount e"
  proof
    assume a: "importHistoricalData clock w options d = Some b \<and> e \<in> set (events b) \<and>
      (\<forall>b0. importedData ?main d = Some b0 \<longrightarrow> e \<notin> set (events b0))"
    then have "importedData (processPosts clock ?f ?main) d = Some b" and "e \<in> set (events b)"
      by (simp_all add: res)
    from bucketOf_processPosts_upper [OF this] a have "e \<in> set ?f" by blast
    then show "e \<in> set ?f \<and> 2 * importMinScore options \<le> postCount e"
      by (simp add: allTimeFiltered_score)
  qed
  have c8: "e \<in> accumulated (importHistoricalData clock w options) \<and>
            e \<notin> accumulated (importedData ?main) \<longrightarrow>
              e \<in> set ?f \<and> 2 * importMinScore options \<le> postCount e"
  proof
    assume a: "e \<in> accumulated (importHistoricalData clock w options) \<and>
               e \<notin> accumulated (importedData ?main)"
    have "accumulated (importHistoricalData clock w options) \<subseteq>
            accumulated (importedData ?main) \<union> set ?f"
      unfolding res by (rule accumulated_processPosts_upper)
    with a have "e \<in> set ?f" by blast
    then show "e \<in> set ?f \<and> 2 * importMinScore options \<le> postCount e"
      by (simp add: allTimeFiltered_score)
  qed
  have "bucketsAll (\<lambda>d b. distinct (map id_ev (events b)) \<and> date b = d)
          (importHistoricalData clock w options)"
    by (rule importRun_inv [OF preserved_distinct_ids repliesAll_True])
  then have c9: "importHistoricalData clock w options d = Some b \<longrightarrow>
                   distinct (map id_ev (events b)) \<and> date b = d"
    unfolding bucketsAll_def by blast
  from c1 c2 c3 c4 c5 c6 c7 c8 c9 show ?thesis by (intro conjI)
qed

theorem broader_fetch_merged_witness:
  "hd exAllTime \<in> accumulated (importHistoricalData exClock exReddit exImportOptions) \<and>
   allTimeFiltered exReddit exImportOptions = [hd exAllTime] \<and>
   2000 \<le> postCount (hd exAllTime)"
  using broader_fetch_merged
          [where p = "hd exAllTime" and clock = exClock and w = exReddit
             and options = exImportOptions and ps = exAllTime]
  by (simp add: exFive_mainLoop accumulated_single exFive_ids_new exAllTime_filtered)
     (simp add: exAllTime_def mkEvent_def)

text \<open>
  C10. Processing a post writes only the bucket of the date that the clock shows at that
  moment, and afterwards this bucket holds an event with the id of the post. So every
  key of the result of an import is a date that the clock has shown, and when the clock
  shows one date \<open>today\<close> throughout, \<open>today\<close> is the only key the result can have.
\<close>

theorem import_keys_are_clock_dates:
  "(k \<noteq> clock (clockReads st) \<longrightarrow>
      importedData (processPost clock st post) k = importedData st k) \<and>
   (\<exists>b. importedData (processPost clock st post) (clock (clockReads st)) = Some b \<and>
        id_ev post \<in> id_ev ` set (events b)) \<and>
   dom (importHistoricalData clock w options) \<subseteq> range clock \<and>
   ((\<forall>n. clock n = today) \<longrightarrow> dom (importHistoricalData clock w options) \<subseteq> {today})"
proof -
  let ?now = "clock (clockReads st)"
  have other: "k \<noteq> ?now \<longrightarrow> importedData (processPost clock st post) k = importedData st k"
    by (simp add: importedData_processPost)
  have "id_ev post \<in> id_ev ` set (events (accumulate ?now (importedData st ?now) post))"
    by (cases rule: accumulate_cases [where old = "importedData st ?now" and p = post and d = ?now])
       simp_all
  then have here: "\<exists>b. importedData (processPost clock st post) ?now = Some b \<and>
                       id_ev post \<in> id_ev ` set (events b)"
    by (simp add: importedData_processPost)
  have "bucketsAll (\<lambda>d b. d \<in> range clock) (importHistoricalData clock w options)"
    by (rule importRun_inv [OF preserved_key_read repliesAll_True])
  then have keys: "dom (importHistoricalData clock w options) \<subseteq> range clock"
    unfolding bucketsAll_def by blast
  have one: "(\<forall>n. clock n = today) \<longrightarrow> dom (importHistoricalData clock w options) \<subseteq> {today}"
  proof
    assume "\<forall>n. clock n = today"
    then have "range clock \<subseteq> {today}" by auto
    with keys show "dom (importHistoricalData clock w options) \<subseteq> {today}" by blast
  qed
  from other here keys one show ?thesis by blast
qed

theorem import_keys_are_clock_dates_witness:
  "dom (importHistoricalData exClock exReddit exImportOptions) \<subseteq> {''2025-01-01''}"
  using import_keys_are_clock_dates
          [where clock = exClock and today = "''2025-01-01''" and w = exReddit
             and options = exImportOptions]
  by (simp add: exClock_def)

section \<open>The ranking of the aggregator\<close>

lemma ranked_ranks:
  "map trendingRank (map (\<lambda>(i, e). e\<lparr>trendingRank := int i + 1\<rparr>) (enumerate n evs)) =
     map (\<lambda>i. int i + 1) [n..<n + length evs]"
proof (induction evs arbitrary: n)
  case Nil
  show ?case by simp
next
  case (Cons x evs)
  have "n < n + length (x # evs)" by simp
  then have "[n..<n + length (x # evs)] = n # [Suc n..<n + length (x # evs)]"
    by (rule upt_conv_Cons)
  moreover have "n + length (x # evs) = Suc n + length evs" by simp
  ultimately have "[n..<n + length (x # evs)] = n # [Suc n..<Suc n + length evs]"
    by (simp only:)
  with Cons.IH [of "Suc n"] show ?case by (simp del: upt_Suc)
qed

lemma ranked_scores:
  "map postCount (map (\<lambda>(i, e). e\<lparr>trendingRank := int i + 1\<rparr>) (enumerate n evs)) =
     map postCount evs"
  by (induction evs arbitrary: n) simp_all

lemma withRanks_ranks:
  "map trendingRank (withRanks evs) = map (\<lambda>i. int i + 1) [0..<length (withRanks evs)]"
  unfolding withRanks_def using ranked_ranks [of 0 evs] by simp

lemma withRanks_scores: "map postCount (withRanks evs) = map postCount evs"
  unfolding withRanks_def by (rule ranked_scores)

lemma sorted_take: "sorted xs \<Longrightarrow> sorted (take n xs)"
  by (metis append_take_drop_id sorted_append)

lemma slice0_scores_sorted:
  "sorted (map f xs) \<Longrightarrow> sorted (map f (slice0 n xs))"
  by (simp add: slice0_def take_map [symmetric] sorted_take del: take_map)

text \<open>
  The ranking of the aggregator. In its bucket the ranks are 1, 2, ... in the order of
  the list and the scores descend along the list; the sort keeps events of equal score
  in the order in which they arrived.
\<close>

theorem aggregator_ranking:
  "map trendingRank (events (aggregateBucket today n m r evs)) =
     map (\<lambda>i. int i + 1) [0..<length (events (aggregateBucket today n m r evs))] \<and>
   sorted (map (\<lambda>e. - postCount e) (events (aggregateBucket today n m r evs))) \<and>
   filter (\<lambda>e. postCount e = k) (sortByPostCount kept) = filter (\<lambda>e. postCount e = k) kept"
proof (intro conjI)
  show "map trendingRank (events (aggregateBucket today n m r evs)) =
          map (\<lambda>i. int i + 1) [0..<length (events (aggregateBucket today n m r evs))]"
    by (simp add: aggregateBucket_def Let_def withRanks_ranks)
next
  let ?u = "removeDuplicates
              (if n then filter isNewsEvent (filter (\<lambda>e. postCount e \<ge> m) evs)
               else filter (\<lambda>e. postCount e \<ge> m) evs)"
  have "sorted (map (\<lambda>e. - postCount e) (sortByPostCount ?u))"
    unfolding sortByPostCount_def by (rule sorted_sort_key)
  then have "sorted (map (\<lambda>e. - postCount e) (slice0 r (sortByPostCount ?u)))"
    by (rule slice0_scores_sorted)
  moreover have "map (\<lambda>e. - postCount e) (withRanks xs) = map (\<lambda>e. - postCount e) xs" for xs
  proof -
    have "map (\<lambda>e. - postCount e) (withRanks xs) = map uminus (map postCount (withRanks xs))"
      by simp
    also have "\<dots> = map uminus (map postCount xs)" by (simp only: withRanks_scores)
    finally show ?thesis by simp
  qed
  ultimately show "sorted (map (\<lambda>e. - postCount e) (events (aggregateBucket today n m r evs)))"
    by (simp add: aggregateBucket_def Let_def)
next
  have "filter (\<lambda>e. - postCount e = - k) (sort_key (\<lambda>e. - postCount e) kept) =
          filter (\<lambda>e. - postCount e = - k) kept"
    by (rule sort_key_stable)
  then show "filter (\<lambda>e. postCount e = k) (sortByPostCount kept) =
               filter (\<lambda>e. postCount e = k) kept"
    by (simp add: sortByPostCount_def)
qed

end
